theory Spec2Isabelle
  imports Complex_Main "HOL-Library.Word"
begin

unbundle bit_operations_syntax

chapter \<open>The scrypt key-derivation records and encrypted containers\<close>

section \<open>Machine values\<close>

text \<open>
  Bytes are 8-bit words and buffers are byte lists. Values of C type \<open>size_t\<close>,
  \<open>uint64_t\<close> and \<open>uint32_t\<close> are natural numbers; where the C arithmetic can wrap,
  the reduction modulo \<open>2 ^ 64\<close> or \<open>2 ^ 32\<close> is written out.

  Values of C type \<open>double\<close> are real numbers: the embedding covers finite doubles and
  leaves infinities and NaN aside. In \<open>memtouse\<close>, whose result is a product converted
  to \<open>size_t\<close>, the conversion of a \<open>size_t\<close> to \<open>double\<close> and the product are rounded
  to the nearest double as IEEE 754 prescribes (\<open>to_double\<close>). In \<open>pickparams\<close> and
  \<open>checkparams\<close> the products and quotients of doubles are exact, which is what the
  doubles give whenever the results are representable. The two places where the code
  divides a double by a number that can be zero are written out with the IEEE result (see
  \<open>checkparams\<close>).

  A C function that returns an \<open>int\<close> status returns \<open>Rc n\<close> for the nonzero
  status \<open>n\<close>. \<open>Undefined\<close> marks an execution that C leaves undefined and that has
  no outcome to follow (a conversion out of range, a division of integers by zero, a read
  or a write past the end of a buffer).
\<close>

type_synonym byte = "8 word"
type_synonym bytes = "byte list"
type_synonym double = real

datatype error = Rc nat | Undefined

text \<open>
  The shift \<open>x << n\<close> of a \<open>uint64_t\<close> by a count that is not a constant. C defines it
  for \<open>n < 64\<close>. The code shifts by counts it has not checked (\<open>KDF\<close>, \<open>Verify\<close>); the
  shift instructions it compiles to, of x86-64 and of AArch64, take the count modulo 64,
  and so does the embedding: a count of 64 shifts by 0.
\<close>

definition shl64 :: "nat \<Rightarrow> nat \<Rightarrow> nat" where
  "shl64 x n = (x * 2 ^ (n mod 64)) mod 2 ^ 64"

text \<open>The conversion \<open>(size_t)x\<close> of a double truncates towards zero; it is defined when
  the truncated value fits 64 bits.\<close>

definition double_to_size :: "double \<Rightarrow> nat option" where
  "double_to_size x =
     (if - 1 < x \<and> x < 2 ^ 64 then Some (nat \<lfloor>x\<rfloor>) else None)"

text \<open>
  Rounding a real number to the nearest double (IEEE 754 binary64, round to nearest,
  ties to even), for results below \<open>2 ^ 1024\<close>. \<open>ilog2 n\<close> is the integer part of the
  binary logarithm of \<open>n \<ge> 1\<close>; \<open>binade x\<close> is, for \<open>x > 0\<close>, the \<open>e\<close> with
  \<open>2 ^ e \<le> x < 2 ^ (e + 1)\<close>; \<open>scale2 x k\<close> is \<open>x\<close> times the \<open>k\<close>-th power of 2. A
  double has 53 significant bits, and below \<open>2 ^ - 1022\<close> the spacing of the subnormal
  numbers.
\<close>

fun ilog2 :: "nat \<Rightarrow> nat" where
  "ilog2 n = (if n < 2 then 0 else Suc (ilog2 (n div 2)))"

declare ilog2.simps [simp del]

definition binade :: "real \<Rightarrow> int" where
  "binade x =
     (if 1 \<le> x then int (ilog2 (nat \<lfloor>x\<rfloor>))
      else let m = ilog2 (nat \<lfloor>1 / x\<rfloor>)
           in if x * 2 ^ m = 1 then - int m else - int m - 1)"

definition scale2 :: "real \<Rightarrow> int \<Rightarrow> real" where
  "scale2 x k = (if 0 \<le> k then x * 2 ^ nat k else x / 2 ^ nat (- k))"

definition round_even :: "real \<Rightarrow> int" where
  "round_even x =
     (let f = \<lfloor>x\<rfloor>; d = x - of_int f
      in if d < 1 / 2 \<or> (d = 1 / 2 \<and> even f) then f else f + 1)"

definition to_double :: "real \<Rightarrow> double" where
  "to_double x =
     (if x = 0 then 0
      else
        let e = max (binade \<bar>x\<bar>) (- 1022)
        in sgn x * scale2 (of_int (round_even (scale2 \<bar>x\<bar> (52 - e)))) (e - 52))"

section \<open>Memory Limiter\<close>

text \<open>
  \<open>src/util/memlimit.c\<close>, \<open>memtouse(maxmem, maxmemfrac, memlimit_min, memlimit)\<close>:
  the caller passes the available memory \<open>memlimit_min\<close>. The function always returns 0.
  The product is \<open>(size_t)(maxmemfrac * (double)memlimit_min)\<close>.
\<close>

definition memtouse :: "nat \<Rightarrow> double \<Rightarrow> nat \<Rightarrow> error + nat" where
  "memtouse maxmem maxmemfrac memlimit_min =
     (let maxmemfrac = (if maxmemfrac > 1 / 2 \<or> maxmemfrac = 0 then 1 / 2 else maxmemfrac)
      in case double_to_size (to_double (maxmemfrac * to_double (of_nat memlimit_min))) of
           None \<Rightarrow> Inl Undefined
         | Some memavail \<Rightarrow>
             let memavail = (if maxmem > 0 \<and> memavail > maxmem then maxmem else memavail);
                 memavail = (if memavail < 1048576 then 1048576 else memavail)
             in Inr memavail)"

text \<open>
  \<open>scrypt/win/memlimit.c\<close>, \<open>memtouse(maxmem, maxmemfrac, memlimit)\<close>: the function
  probes the platform itself. Each of the four probes either fails (\<open>None\<close>, and
  \<open>memtouse\<close> returns 1) or yields a limit; a probe that is compiled out yields
  \<open>(size_t)(-1)\<close>. The product is formed as \<open>(size_t)maxmemfrac * memlimit_min\<close>: the cast
  applies to the fraction alone, and the multiplication is that of \<open>size_t\<close>.
\<close>

definition SIZE_MAX :: nat where
  "SIZE_MAX = 2 ^ 64 - 1"

record memprobes =
  sysctl_memlimit :: "nat option"
  sysinfo_memlimit :: "nat option"
  rlimit_memlimit :: "nat option"
  sysconf_memlimit :: "nat option"

definition memtouse_win :: "memprobes \<Rightarrow> nat \<Rightarrow> double \<Rightarrow> error + nat" where
  "memtouse_win pr maxmem maxmemfrac =
     (case sysctl_memlimit pr of None \<Rightarrow> Inl (Rc 1) | Some sysctl \<Rightarrow>
      case sysinfo_memlimit pr of None \<Rightarrow> Inl (Rc 1) | Some sysinfo \<Rightarrow>
      case rlimit_memlimit pr of None \<Rightarrow> Inl (Rc 1) | Some rlimit \<Rightarrow>
      case sysconf_memlimit pr of None \<Rightarrow> Inl (Rc 1) | Some sysconf \<Rightarrow>
        let memlimit_min = SIZE_MAX;
            memlimit_min = (if memlimit_min > sysctl then sysctl else memlimit_min);
            memlimit_min = (if memlimit_min > sysinfo then sysinfo else memlimit_min);
            memlimit_min = (if memlimit_min > rlimit then rlimit else memlimit_min);
            memlimit_min = (if memlimit_min > sysconf then sysconf else memlimit_min);
            maxmemfrac = (if maxmemfrac > 1 / 2 \<or> maxmemfrac = 0 then 1 / 2 else maxmemfrac)
        in case double_to_size maxmemfrac of
             None \<Rightarrow> Inl Undefined
           | Some whole \<Rightarrow>
               let memavail = (whole * memlimit_min) mod 2 ^ 64;
                   memavail = (if maxmem > 0 \<and> memavail > maxmem then maxmem else memavail);
                   memavail = (if memavail < 1048576 then 1048576 else memavail)
               in Inr memavail)"

section \<open>Parameter Selector\<close>

text \<open>
  The host of \<open>scryptenc.c\<close>: what the calls that leave the file return during one
  call of an entry point. An entry point asks each of them once, so one record serves one
  call; what is measured (the free memory, the speed of the CPU) and what is drawn (the
  salt) can differ from call to call, and two calls take two records.
  \<^item> \<open>memtouse_host\<close>: the three-argument \<open>memtouse(maxmem, maxmemfrac, &memlimit)\<close> the
    file is linked with;
  \<^item> \<open>cpuperf_host\<close>: \<open>scryptenc_cpuperf(&opps)\<close>, a measurement: a nonzero status or
    the measured number of salsa20/8 cores per second;
  \<^item> \<open>entropy_host\<close>: \<open>crypto_entropy_read(salt, 32)\<close>: the 32 bytes read, or a failure;
  \<^item> \<open>aes_key_host\<close>, \<open>aesctr_host\<close>: whether \<open>crypto_aes_key_expand\<close> and
    \<open>crypto_aesctr_init\<close> return an object (they return \<open>NULL\<close> when out of memory).
\<close>

record host =
  memtouse_host :: "nat \<Rightarrow> double \<Rightarrow> error + nat"
  cpuperf_host :: "nat + double"
  entropy_host :: "bytes option"
  aes_key_host :: bool
  aesctr_host :: bool

text \<open>The loop \<open>for (*logN = 1; *logN < 63; *logN += 1) if ((uint64_t)(1) << *logN > maxN / 2) break;\<close>\<close>

function pick_logN :: "double \<Rightarrow> nat \<Rightarrow> nat" where
  "pick_logN maxN logN =
     (if logN < 63 then
        (if of_nat (2 ^ logN) > maxN / 2 then logN else pick_logN maxN (logN + 1))
      else logN)"
  by pat_completeness auto
termination
  by (relation "measure (\<lambda>(maxN, logN). 63 - logN)") auto

declare pick_logN.simps [simp del]

text \<open>
  The body that \<open>pickparams\<close> of \<open>scryptenc.c\<close> and \<open>pickparams\<close> of
  \<open>src/scryptwrapper/pickparams.c\<close> share, from \<open>opslimit = opps * maxtime\<close> on. The
  result is \<open>(logN, r, p)\<close>. \<open>memlimit / 32\<close> and \<open>memlimit / (r * 128)\<close> are divisions of
  \<open>size_t\<close>; \<open>(uint32_t)(maxrp)\<close> truncates a value between 0 and \<open>0x3fffffff\<close>.
\<close>

definition pickparams_limits :: "nat \<Rightarrow> double \<Rightarrow> double \<Rightarrow> nat \<times> nat \<times> nat" where
  "pickparams_limits memlimit opps maxtime =
     (let opslimit = opps * maxtime;
          opslimit = (if opslimit < 32768 then 32768 else opslimit);
          r = 8
      in if opslimit < of_nat (memlimit div 32) then
           let p = 1;
               maxN = opslimit / of_nat (r * 4);
               logN = pick_logN maxN 1
           in (logN, r, p)
         else
           let maxN = of_nat (memlimit div (r * 128));
               logN = pick_logN maxN 1;
               maxrp = (opslimit / 4) / of_nat (2 ^ logN);
               maxrp = (if maxrp > 0x3fffffff then 0x3fffffff else maxrp);
               p = nat \<lfloor>maxrp\<rfloor> div r
           in (logN, r, p))"

text \<open>\<open>pickparams\<close> of \<open>scryptenc.c\<close>.\<close>

definition pickparams :: "host \<Rightarrow> nat \<Rightarrow> double \<Rightarrow> double \<Rightarrow> error + nat \<times> nat \<times> nat" where
  "pickparams h maxmem maxmemfrac maxtime =
     (case memtouse_host h maxmem maxmemfrac of
        Inl Undefined \<Rightarrow> Inl Undefined
      | Inl (Rc _) \<Rightarrow> Inl (Rc 1)
      | Inr memlimit \<Rightarrow>
          (case cpuperf_host h of
             Inl rc \<Rightarrow> Inl (Rc rc)
           | Inr opps \<Rightarrow> Inr (pickparams_limits memlimit opps maxtime)))"

text \<open>\<open>pickparams\<close> of \<open>src/scryptwrapper/pickparams.c\<close>, which takes the free memory
  of the system from its caller and measures the CPU itself.\<close>

definition pickparams_wrapper ::
  "(nat + double) \<Rightarrow> double \<Rightarrow> nat \<Rightarrow> double \<Rightarrow> nat \<Rightarrow> error + nat \<times> nat \<times> nat" where
  "pickparams_wrapper cpuperf maxtime maxmem maxmemfrac osfreemem =
     (case memtouse maxmem maxmemfrac osfreemem of
        Inl Undefined \<Rightarrow> Inl Undefined
      | Inl (Rc _) \<Rightarrow> Inl (Rc 1)
      | Inr memlimit \<Rightarrow>
          (case cpuperf of
             Inl rc \<Rightarrow> Inl (Rc rc)
           | Inr opps \<Rightarrow> Inr (pickparams_limits memlimit opps maxtime)))"

text \<open>
  \<open>checkparams\<close> of \<open>scryptenc.c\<close>; \<open>None\<close> is the status 0. \<open>(memlimit / N) / r\<close> divides
  integers, which C leaves undefined for \<open>r = 0\<close>. \<open>(opslimit / N) / (r * p)\<close> divides
  doubles: for \<open>r * p = 0\<close> the quotient is an infinity with the sign of \<open>opslimit\<close>, or
  NaN for \<open>opslimit = 0\<close>, so it is below 4 exactly when \<open>opslimit\<close> is negative.
\<close>

definition checkparams ::
  "host \<Rightarrow> nat \<Rightarrow> double \<Rightarrow> double \<Rightarrow> nat \<Rightarrow> nat \<Rightarrow> nat \<Rightarrow> error option" where
  "checkparams h maxmem maxmemfrac maxtime logN r p =
     (case memtouse_host h maxmem maxmemfrac of
        Inl Undefined \<Rightarrow> Some Undefined
      | Inl (Rc _) \<Rightarrow> Some (Rc 1)
      | Inr memlimit \<Rightarrow>
          (case cpuperf_host h of
             Inl rc \<Rightarrow> Some (Rc rc)
           | Inr opps \<Rightarrow>
               let opslimit = opps * maxtime
               in if logN < 1 \<or> logN > 63 then Some (Rc 7)
                  else if r * p \<ge> 0x40000000 then Some (Rc 7)
                  else
                    let N = (2::nat) ^ logN
                    in if r = 0 then Some Undefined
                       else if (memlimit div N) div r < 128 then Some (Rc 9)
                       else if (if (r * p) mod 2 ^ 32 = 0 then opslimit < 0
                                else (opslimit / of_nat N) / of_nat ((r * p) mod 2 ^ 32) < 4)
                         then Some (Rc 10)
                       else None))"

text \<open>A Windows host: the probes that are compiled out yield \<open>(size_t)(-1)\<close>, the
  working-set probe yields \<open>rlimit\<close>, the CPU measurement yields \<open>opps\<close>.\<close>

definition win_probes :: "nat \<Rightarrow> memprobes" where
  "win_probes rlimit =
     \<lparr>sysctl_memlimit = Some SIZE_MAX, sysinfo_memlimit = Some SIZE_MAX,
      rlimit_memlimit = Some rlimit, sysconf_memlimit = Some SIZE_MAX\<rparr>"

definition win_host :: "nat \<Rightarrow> double \<Rightarrow> bytes \<Rightarrow> host" where
  "win_host rlimit opps salt =
     \<lparr>memtouse_host = memtouse_win (win_probes rlimit), cpuperf_host = Inr opps,
      entropy_host = Some salt, aes_key_host = True, aesctr_host = True\<rparr>"

section \<open>External primitives\<close>

text \<open>
  The hash, the keyed hash, the memory-hard function and the block cipher are not part of
  \<open>scryptenc.c\<close> and \<open>keyderivation.c\<close>; they are parameters of the embedding.
  \<^item> \<open>sha256 m\<close>: the SHA-256 digest of the message \<open>m\<close>;
  \<^item> \<open>hmac_sha256 k m\<close>: the HMAC-SHA256 tag of \<open>m\<close> under the key \<open>k\<close>;
  \<^item> \<open>crypto_scrypt passwd salt N r p buflen\<close>: the \<open>buflen\<close> derived bytes, or
    \<open>Inl errno\<close> when the function returns \<open>-1\<close>;
  \<^item> \<open>aes_keystream key nonce i\<close>: byte \<open>i\<close> of the AES-CTR key stream.
\<close>

record prims =
  sha256 :: "bytes \<Rightarrow> bytes"
  hmac_sha256 :: "bytes \<Rightarrow> bytes \<Rightarrow> bytes"
  crypto_scrypt :: "bytes \<Rightarrow> bytes \<Rightarrow> nat \<Rightarrow> nat \<Rightarrow> nat \<Rightarrow> nat \<Rightarrow> nat + bytes"
  aes_keystream :: "bytes \<Rightarrow> nat \<Rightarrow> nat \<Rightarrow> byte"

text \<open>The primitives fill their output buffers: 32 bytes of digest or tag, \<open>buflen\<close>
  derived bytes.\<close>

definition prims_ok :: "prims \<Rightarrow> bool" where
  "prims_ok P \<longleftrightarrow>
     (\<forall>m. length (sha256 P m) = 32) \<and>
     (\<forall>k m. length (hmac_sha256 P k m) = 32) \<and>
     (\<forall>passwd salt N r p buflen dk.
        crypto_scrypt P passwd salt N r p buflen = Inr dk \<longrightarrow> length dk = buflen)"

text \<open>The arguments of one call of \<open>crypto_scrypt\<close>: password, salt, \<open>N\<close>, \<open>r\<close>, \<open>p\<close> and
  the number of bytes asked for.\<close>

type_synonym scrypt_call = "bytes \<times> bytes \<times> nat \<times> nat \<times> nat \<times> nat"

text \<open>Modelled from the spec: \<open>sysendian.h\<close> is not among the sources. The record stores
  \<open>blockSizeFactor\<close> and \<open>parallelism\<close> as 4-byte big-endian integers.\<close>

definition be32enc :: "nat \<Rightarrow> bytes" where
  "be32enc x =
     [of_nat (x div 2 ^ 24 mod 256), of_nat (x div 2 ^ 16 mod 256),
      of_nat (x div 2 ^ 8 mod 256), of_nat (x mod 256)]"

definition be32dec :: "bytes \<Rightarrow> nat" where
  "be32dec bs = unat (bs ! 3) + unat (bs ! 2) * 2 ^ 8 + unat (bs ! 1) * 2 ^ 16 + unat (bs ! 0) * 2 ^ 24"

text \<open>The literal \<open>"scrypt"\<close>.\<close>

definition magic :: bytes where
  "magic = [0x73, 0x63, 0x72, 0x79, 0x70, 0x74]"

section \<open>Key Deriver and Record Codec: the verification record\<close>

text \<open>\<open>ScryptHashFunction\<close> of \<open>src/scryptwrapper/hash.c\<close>: 0 and the derived bytes, or the
  status 3 with \<open>errno\<close> in the upper half.\<close>

definition ScryptHashFunction ::
  "prims \<Rightarrow> bytes \<Rightarrow> bytes \<Rightarrow> nat \<Rightarrow> nat \<Rightarrow> nat \<Rightarrow> nat \<Rightarrow> nat + bytes" where
  "ScryptHashFunction P key salt N r p buflen =
     (case crypto_scrypt P key salt N r p buflen of
        Inr buf \<Rightarrow> Inr buf
      | Inl errno \<Rightarrow> Inl (if errno \<noteq> 0 then (3 + errno * 2 ^ 16) mod 2 ^ 32 else 3))"

text \<open>
  \<open>KDF\<close> of \<open>src/scryptwrapper/keyderivation.c\<close>. The function reads 32 bytes at \<open>salt\<close>
  and shifts the 64-bit \<open>N = 1\<close> by \<open>logN\<close>, which it does not check. It returns the 96
  bytes it writes to \<open>kdf\<close>.
\<close>

definition KDF ::
  "prims \<Rightarrow> bytes \<Rightarrow> 32 word \<Rightarrow> 32 word \<Rightarrow> 32 word \<Rightarrow> bytes \<Rightarrow> error + bytes" where
  "KDF P passwd logN r p salt =
     (if length salt < 32 then Inl Undefined
      else
        let N = shl64 1 (unat logN)
        in case ScryptHashFunction P passwd (take 32 salt) N (unat r) (unat p) 64 of
             Inl _ \<Rightarrow> Inl (Rc 3)
           | Inr dk \<Rightarrow>
               let key_hmac = take 32 (drop 32 dk);
                   kdf = magic @ [0] @ [ucast logN] @ be32enc (unat r) @ be32enc (unat p)
                         @ take 32 salt;
                   hbuf = sha256 P (take 48 kdf);
                   kdf = kdf @ take 16 hbuf;
                   hbuf = hmac_sha256 P key_hmac (take 64 kdf);
                   kdf = kdf @ take 32 hbuf
               in Inr kdf)"

text \<open>
  \<open>Verify\<close> of \<open>src/scryptwrapper/keyderivation.c\<close>, which reads the 96 bytes at
  \<open>kdf\<close> and shifts the 64-bit 1 by the byte \<open>kdf[7]\<close>, which it does not check. The
  first component is the status (\<open>None\<close> for 0), the second the calls of the derivation
  it made.
\<close>

definition Verify :: "prims \<Rightarrow> bytes \<Rightarrow> bytes \<Rightarrow> error option \<times> scrypt_call list" where
  "Verify P kdf passwd =
     (if length kdf < 96 then (Some Undefined, [])
      else
        let N = shl64 1 (unat (kdf ! 7));
            r = be32dec (take 4 (drop 8 kdf));
            p = be32dec (take 4 (drop 12 kdf));
            salt = take 32 (drop 16 kdf);
            hbuf = sha256 P (take 48 kdf)
        in if take 16 (drop 48 kdf) \<noteq> take 16 hbuf then (Some (Rc 7), [])
           else
             case ScryptHashFunction P passwd salt N r p 64 of
               Inl _ \<Rightarrow> (Some (Rc 3), [(passwd, salt, N, r, p, 64)])
             | Inr dk \<Rightarrow>
                 let key_hmac = take 32 (drop 32 dk);
                     hbuf = hmac_sha256 P key_hmac (take 64 kdf)
                 in if take 32 hbuf \<noteq> take 32 (drop 64 kdf)
                    then (Some (Rc 11), [(passwd, salt, N, r, p, 64)])
                    else (None, [(passwd, salt, N, r, p, 64)]))"

text \<open>\<open>kdfVerifySync\<close> of \<open>src/node-boilerplate/scrypt_kdf-verify_sync.cc\<close>: a status
  other than 0 and 11 is thrown, 0 is \<open>true\<close> and 11 is \<open>false\<close>.\<close>

definition kdfVerifySync :: "prims \<Rightarrow> bytes \<Rightarrow> bytes \<Rightarrow> error + bool" where
  "kdfVerifySync P kdf key =
     (case fst (Verify P kdf key) of
        None \<Rightarrow> Inr True
      | Some result \<Rightarrow> if result \<noteq> Rc 11 then Inl result else Inr False)"

section \<open>Running hashes and the stream cipher\<close>

text \<open>
  Modelled from the spec: \<open>sha256.h\<close> and \<open>crypto_aesctr.h\<close> are not among the sources.
  The running authentication tag is "a keyed hash computed incrementally over header and
  ciphertext bytes, finalized once all bytes are seen": the context keeps the key and the
  bytes fed so far. The cipher is "a counter-mode stream cipher keyed by a 32-byte key":
  it combines the data with the key stream by exclusive or, and the context keeps the
  position in the key stream.
\<close>

record hmac_ctx =
  hmac_key :: bytes
  hmac_msg :: bytes

definition HMAC_SHA256_Init :: "bytes \<Rightarrow> hmac_ctx" where
  "HMAC_SHA256_Init key = \<lparr>hmac_key = key, hmac_msg = []\<rparr>"

definition HMAC_SHA256_Update :: "hmac_ctx \<Rightarrow> bytes \<Rightarrow> hmac_ctx" where
  "HMAC_SHA256_Update ctx data = ctx\<lparr>hmac_msg := hmac_msg ctx @ data\<rparr>"

definition HMAC_SHA256_Final :: "prims \<Rightarrow> hmac_ctx \<Rightarrow> bytes" where
  "HMAC_SHA256_Final P ctx = hmac_sha256 P (hmac_key ctx) (hmac_msg ctx)"

record aesctr =
  aes_key :: bytes
  aes_nonce :: nat
  aes_pos :: nat

definition crypto_aesctr_init :: "bytes \<Rightarrow> nat \<Rightarrow> aesctr" where
  "crypto_aesctr_init key nonce = \<lparr>aes_key = key, aes_nonce = nonce, aes_pos = 0\<rparr>"

definition crypto_aesctr_stream :: "prims \<Rightarrow> aesctr \<Rightarrow> bytes \<Rightarrow> bytes \<times> aesctr" where
  "crypto_aesctr_stream P AES inbuf =
     (map2 (XOR) inbuf
        (map (aes_keystream P (aes_key AES) (aes_nonce AES))
           [aes_pos AES ..< aes_pos AES + length inbuf]),
      AES\<lparr>aes_pos := aes_pos AES + length inbuf\<rparr>)"

section \<open>Record Codec: the container header\<close>

text \<open>
  What a run of an entry point of \<open>scryptenc.c\<close> leaves behind: the status (\<open>None\<close> for 0),
  the output (the contents of \<open>outbuf\<close>, or the bytes in \<open>outfile\<close>) and the contents of
  the local array \<open>dk\<close> when the function returns (\<open>None\<close> while the derivation has not
  filled it). The decrypting entry points also leave \<open>*outlen\<close>, when they set it, and
  the calls of \<open>crypto_scrypt\<close> they made on the password.
\<close>

record run =
  status :: "error option"
  out :: bytes
  dk_left :: "bytes option"

record dec_run = run +
  outlen :: "nat option"
  derivations :: "scrypt_call list"

text \<open>\<open>scryptenc_setup\<close>: the status, or the 96-byte header and the 64 derived bytes.\<close>

definition scryptenc_setup ::
  "host \<Rightarrow> prims \<Rightarrow> bytes \<Rightarrow> nat \<Rightarrow> double \<Rightarrow> double \<Rightarrow> error + bytes \<times> bytes" where
  "scryptenc_setup h P passwd maxmem maxmemfrac maxtime =
     (case pickparams h maxmem maxmemfrac maxtime of
        Inl rc \<Rightarrow> Inl rc
      | Inr (logN, r, p) \<Rightarrow>
          let N = (2::nat) ^ logN
          in case entropy_host h of
               None \<Rightarrow> Inl (Rc 4)
             | Some salt \<Rightarrow>
                 (case crypto_scrypt P passwd salt N r p 64 of
                    Inl _ \<Rightarrow> Inl (Rc 3)
                  | Inr dk \<Rightarrow>
                      let key_hmac = take 32 (drop 32 dk);
                          header = magic @ [0] @ [of_nat logN] @ be32enc r @ be32enc p @ salt;
                          hbuf = sha256 P (take 48 header);
                          header = header @ take 16 hbuf;
                          hbuf = hmac_sha256 P key_hmac (take 64 header);
                          header = header @ take 32 hbuf
                      in Inr (header, dk)))"

text \<open>
  \<open>scryptdec_setup\<close>, on a header of 96 bytes: on a nonzero status, the status, the
  contents of \<open>dk\<close> and the derivations made; on status 0, the derived bytes and the
  derivation made.
\<close>

definition scryptdec_setup ::
  "host \<Rightarrow> prims \<Rightarrow> bytes \<Rightarrow> bytes \<Rightarrow> nat \<Rightarrow> double \<Rightarrow> double
     \<Rightarrow> error \<times> bytes option \<times> scrypt_call list + bytes \<times> scrypt_call list" where
  "scryptdec_setup h P header passwd maxmem maxmemfrac maxtime =
     (let logN = unat (header ! 7);
          r = be32dec (take 4 (drop 8 header));
          p = be32dec (take 4 (drop 12 header));
          salt = take 32 (drop 16 header);
          hbuf = sha256 P (take 48 header)
      in if take 16 (drop 48 header) \<noteq> take 16 hbuf then Inl (Rc 7, None, [])
         else
           case checkparams h maxmem maxmemfrac maxtime logN r p of
             Some rc \<Rightarrow> Inl (rc, None, [])
           | None \<Rightarrow>
               let N = (2::nat) ^ logN
               in case crypto_scrypt P passwd salt N r p 64 of
                    Inl _ \<Rightarrow> Inl (Rc 3, None, [(passwd, salt, N, r, p, 64)])
                  | Inr dk \<Rightarrow>
                      let key_hmac = take 32 (drop 32 dk);
                          hbuf = hmac_sha256 P key_hmac (take 64 header)
                      in if take 32 hbuf \<noteq> take 32 (drop 64 header)
                         then Inl (Rc 11, Some dk, [(passwd, salt, N, r, p, 64)])
                         else Inr (dk, [(passwd, salt, N, r, p, 64)]))"

section \<open>Streaming Cipher Pipeline: buffers\<close>

text \<open>
  \<open>scryptenc_buf\<close> writes \<open>inbuflen + 128\<close> bytes to \<open>outbuf\<close>, whose contents before the
  call are the argument \<open>outbuf\<close>; a shorter \<open>outbuf\<close> is written past its end.
\<close>

definition scryptenc_buf ::
  "host \<Rightarrow> prims \<Rightarrow> bytes \<Rightarrow> bytes \<Rightarrow> bytes \<Rightarrow> nat \<Rightarrow> double \<Rightarrow> double \<Rightarrow> run" where
  "scryptenc_buf h P inbuf outbuf passwd maxmem maxmemfrac maxtime =
     (let inbuflen = length inbuf
      in case scryptenc_setup h P passwd maxmem maxmemfrac maxtime of
           Inl rc \<Rightarrow> \<lparr>status = Some rc, out = outbuf, dk_left = None\<rparr>
         | Inr (header, dk) \<Rightarrow>
             if length outbuf < inbuflen + 128
             then \<lparr>status = Some Undefined, out = outbuf, dk_left = Some dk\<rparr>
             else
               let key_enc = take 32 dk;
                   key_hmac = take 32 (drop 32 dk);
                   outbuf = take 96 header @ drop 96 outbuf
               in if \<not> aes_key_host h
                  then \<lparr>status = Some (Rc 5), out = outbuf, dk_left = Some dk\<rparr>
                  else if \<not> aesctr_host h
                  then \<lparr>status = Some (Rc 6), out = outbuf, dk_left = Some dk\<rparr>
                  else
                    let AES = crypto_aesctr_init key_enc 0;
                        (data, AES) = crypto_aesctr_stream P AES inbuf;
                        outbuf = take 96 outbuf @ data @ drop (96 + inbuflen) outbuf;
                        hbuf = hmac_sha256 P key_hmac (take (96 + inbuflen) outbuf);
                        outbuf = take (96 + inbuflen) outbuf @ take 32 hbuf
                                 @ drop (96 + inbuflen + 32) outbuf;
                        dk = replicate 64 0
                    in \<lparr>status = None, out = outbuf, dk_left = Some dk\<rparr>)"

text \<open>
  \<open>scryptdec_buf\<close> writes \<open>inbuflen - 128\<close> bytes to \<open>outbuf\<close>, whose contents before the
  call are the argument \<open>outbuf\<close>; a shorter \<open>outbuf\<close> is written past its end.
\<close>

definition scryptdec_buf ::
  "host \<Rightarrow> prims \<Rightarrow> bytes \<Rightarrow> bytes \<Rightarrow> bytes \<Rightarrow> nat \<Rightarrow> double \<Rightarrow> double \<Rightarrow> dec_run" where
  "scryptdec_buf h P inbuf outbuf passwd maxmem maxmemfrac maxtime =
     (let inbuflen = length inbuf;
          untouched = \<lparr>status = None, out = outbuf, dk_left = None, outlen = None,
                       derivations = []\<rparr>
      in if inbuflen < 7 \<or> take 6 inbuf \<noteq> magic then untouched\<lparr>status := Some (Rc 7)\<rparr>
         else if inbuf ! 6 \<noteq> 0 then untouched\<lparr>status := Some (Rc 8)\<rparr>
         else if inbuflen < 128 then untouched\<lparr>status := Some (Rc 7)\<rparr>
         else
           case scryptdec_setup h P (take 96 inbuf) passwd maxmem maxmemfrac maxtime of
             Inl (rc, dk, calls) \<Rightarrow>
               untouched\<lparr>status := Some rc, dk_left := dk, derivations := calls\<rparr>
           | Inr (dk, calls) \<Rightarrow>
               let key_enc = take 32 dk;
                   key_hmac = take 32 (drop 32 dk);
                   keyed = untouched\<lparr>dk_left := Some dk, derivations := calls\<rparr>
               in if \<not> aes_key_host h then keyed\<lparr>status := Some (Rc 5)\<rparr>
                  else if \<not> aesctr_host h then keyed\<lparr>status := Some (Rc 6)\<rparr>
                  else if length outbuf < inbuflen - 128 then keyed\<lparr>status := Some Undefined\<rparr>
                  else
                    let AES = crypto_aesctr_init key_enc 0;
                        (data, AES) = crypto_aesctr_stream P AES (take (inbuflen - 128) (drop 96 inbuf));
                        outbuf = data @ drop (inbuflen - 128) outbuf;
                        written = keyed\<lparr>out := outbuf, outlen := Some (inbuflen - 128)\<rparr>;
                        hbuf = hmac_sha256 P key_hmac (take (inbuflen - 32) inbuf)
                    in if take 32 hbuf \<noteq> take 32 (drop (inbuflen - 32) inbuf)
                       then written\<lparr>status := Some (Rc 7)\<rparr>
                       else written\<lparr>status := None, dk_left := Some (replicate 64 0)\<rparr>)"

section \<open>Streaming Cipher Pipeline: streams\<close>

text \<open>
  An input \<open>FILE\<close>: \<open>in_data\<close> are the bytes it has yet to deliver. A byte-wise \<open>fread\<close>
  delivers as many bytes as asked for, or fewer: \<open>in_short\<close> lists, for the coming
  byte-wise reads, one less than the number of bytes the read delivers at most (when the
  list is used up, a read is cut short by the end of the data only). When the data is
  used up the stream is at its end, or, if \<open>in_fails\<close>, in error, which sets the error
  indicator \<open>in_error\<close> that \<open>ferror\<close> returns.
\<close>

record instream =
  in_data :: bytes
  in_short :: "nat list"
  in_fails :: bool
  in_error :: bool

text \<open>\<open>fread(ptr, 1, n, stream)\<close>: the bytes read (their number is the return value).\<close>

definition fread_bytes :: "nat \<Rightarrow> instream \<Rightarrow> bytes \<times> instream" where
  "fread_bytes n f =
     (let k = (case in_short f of [] \<Rightarrow> n | c # _ \<Rightarrow> min n (Suc c))
      in (take k (in_data f),
          f\<lparr>in_data := drop k (in_data f), in_short := tl (in_short f),
            in_error := in_error f \<or> (in_fails f \<and> length (in_data f) < k)\<rparr>))"

text \<open>\<open>fread(ptr, size, 1, stream)\<close>: whether the item was read (the return value is 1),
  and the bytes read.\<close>

definition fread_item :: "nat \<Rightarrow> instream \<Rightarrow> bool \<times> bytes \<times> instream" where
  "fread_item n f =
     (if n \<le> length (in_data f)
      then (True, take n (in_data f), f\<lparr>in_data := drop n (in_data f)\<rparr>)
      else (False, in_data f, f\<lparr>in_data := [], in_error := in_error f \<or> in_fails f\<rparr>))"

definition ferror :: "instream \<Rightarrow> bool" where
  "ferror f = in_error f"

text \<open>A byte-wise read that delivers bytes shortens the data to come.\<close>

lemma fread_bytes_shrinks:
  "(got, f') = fread_bytes n f \<Longrightarrow> 0 < length got
     \<Longrightarrow> length (in_data f') < length (in_data f)"
  by (cases "in_short f") (auto simp: fread_bytes_def Let_def)

text \<open>An output \<open>FILE\<close>: the bytes written, and the number of bytes it still accepts.\<close>

record outstream =
  out_data :: bytes
  out_room :: nat

text \<open>\<open>fwrite(ptr, 1, n, stream)\<close>: the number of bytes written.\<close>

definition fwrite_bytes :: "bytes \<Rightarrow> outstream \<Rightarrow> nat \<times> outstream" where
  "fwrite_bytes buf f =
     (let k = min (length buf) (out_room f)
      in (k, f\<lparr>out_data := out_data f @ take k buf, out_room := out_room f - k\<rparr>))"

text \<open>\<open>fwrite(ptr, size, 1, stream)\<close>: 1 when the whole item was written.\<close>

definition fwrite_item :: "bytes \<Rightarrow> outstream \<Rightarrow> nat \<times> outstream" where
  "fwrite_item buf f =
     (let (k, f) = fwrite_bytes buf f in (if k = length buf then 1 else 0, f))"

definition ENCBLOCK :: nat where
  "ENCBLOCK = 65536"

text \<open>
  The loop of \<open>scryptenc_file\<close>. The first component tells whether the loop was left by
  \<open>break\<close> (\<open>True\<close>) or by \<open>return (12)\<close> (\<open>False\<close>).
\<close>

function enc_loop ::
  "prims \<Rightarrow> instream \<Rightarrow> outstream \<Rightarrow> aesctr \<Rightarrow> hmac_ctx
     \<Rightarrow> bool \<times> instream \<times> outstream \<times> aesctr \<times> hmac_ctx" where
  "enc_loop P infile outfile AES hctx =
     (let (buf, infile) = fread_bytes ENCBLOCK infile;
          readlen = length buf
      in if readlen = 0 then (True, infile, outfile, AES, hctx)
         else
           let (buf, AES) = crypto_aesctr_stream P AES buf;
               hctx = HMAC_SHA256_Update hctx buf;
               (written, outfile) = fwrite_bytes buf outfile
           in if written < readlen then (False, infile, outfile, AES, hctx)
              else enc_loop P infile outfile AES hctx)"
  by pat_completeness auto
termination
proof (relation "measure (\<lambda>(P, infile, outfile, AES, hctx). length (in_data infile))")
  show "wf (measure (\<lambda>(P, infile, outfile, AES, hctx). length (in_data infile)))"
    by simp
qed (simp_all add: fread_bytes_shrinks)

declare enc_loop.simps [simp del]

text \<open>\<open>scryptenc_file\<close>; \<open>out\<close> holds the bytes in \<open>outfile\<close> when the function returns.\<close>

definition scryptenc_file ::
  "host \<Rightarrow> prims \<Rightarrow> instream \<Rightarrow> outstream \<Rightarrow> bytes \<Rightarrow> nat \<Rightarrow> double \<Rightarrow> double \<Rightarrow> run" where
  "scryptenc_file h P infile outfile passwd maxmem maxmemfrac maxtime =
     (case scryptenc_setup h P passwd maxmem maxmemfrac maxtime of
        Inl rc \<Rightarrow> \<lparr>status = Some rc, out = out_data outfile, dk_left = None\<rparr>
      | Inr (header, dk) \<Rightarrow>
          let key_enc = take 32 dk;
              key_hmac = take 32 (drop 32 dk);
              hctx = HMAC_SHA256_Init key_hmac;
              hctx = HMAC_SHA256_Update hctx (take 96 header);
              (n, outfile) = fwrite_item (take 96 header) outfile
          in if n \<noteq> 1
             then \<lparr>status = Some (Rc 12), out = out_data outfile, dk_left = Some dk\<rparr>
             else if \<not> aes_key_host h
             then \<lparr>status = Some (Rc 5), out = out_data outfile, dk_left = Some dk\<rparr>
             else if \<not> aesctr_host h
             then \<lparr>status = Some (Rc 6), out = out_data outfile, dk_left = Some dk\<rparr>
             else
               let AES = crypto_aesctr_init key_enc 0;
                   (done, infile, outfile, AES, hctx) = enc_loop P infile outfile AES hctx
               in if \<not> done
                  then \<lparr>status = Some (Rc 12), out = out_data outfile, dk_left = Some dk\<rparr>
                  else if ferror infile
                  then \<lparr>status = Some (Rc 13), out = out_data outfile, dk_left = Some dk\<rparr>
                  else
                    let hbuf = HMAC_SHA256_Final P hctx;
                        (n, outfile) = fwrite_item (take 32 hbuf) outfile
                    in if n \<noteq> 1
                       then \<lparr>status = Some (Rc 12), out = out_data outfile, dk_left = Some dk\<rparr>
                       else \<lparr>status = None, out = out_data outfile,
                              dk_left = Some (replicate 64 0)\<rparr>)"

text \<open>
  The loop of \<open>scryptdec_file\<close>; \<open>buf\<close> holds the \<open>buflen\<close> bytes that are in the buffer.
  The first component tells whether the loop was left by \<open>break\<close> (\<open>True\<close>) or by
  \<open>return (12)\<close> (\<open>False\<close>).
\<close>

function dec_loop ::
  "prims \<Rightarrow> bytes \<Rightarrow> instream \<Rightarrow> outstream \<Rightarrow> aesctr \<Rightarrow> hmac_ctx
     \<Rightarrow> bool \<times> bytes \<times> instream \<times> outstream \<times> aesctr \<times> hmac_ctx" where
  "dec_loop P buf infile outfile AES hctx =
     (let buflen = length buf;
          (got, infile) = fread_bytes (ENCBLOCK + 32 - buflen) infile;
          readlen = length got
      in if readlen = 0 then (True, buf, infile, outfile, AES, hctx)
         else
           let buf = buf @ got;
               buflen = buflen + readlen
           in if buflen \<le> 32 then dec_loop P buf infile outfile AES hctx
              else
                let hctx = HMAC_SHA256_Update hctx (take (buflen - 32) buf);
                    (data, AES) = crypto_aesctr_stream P AES (take (buflen - 32) buf);
                    (written, outfile) = fwrite_bytes data outfile
                in if written < buflen - 32 then (False, buf, infile, outfile, AES, hctx)
                   else dec_loop P (drop (buflen - 32) buf) infile outfile AES hctx)"
  by pat_completeness auto
termination
proof (relation "measure (\<lambda>(P, buf, infile, outfile, AES, hctx). length (in_data infile))")
  show "wf (measure (\<lambda>(P, buf, infile, outfile, AES, hctx). length (in_data infile)))"
    by simp
qed (simp_all add: fread_bytes_shrinks)

declare dec_loop.simps [simp del]

text \<open>\<open>scryptdec_file\<close>; \<open>out\<close> holds the bytes in \<open>outfile\<close> when the function returns.\<close>

definition scryptdec_file ::
  "host \<Rightarrow> prims \<Rightarrow> instream \<Rightarrow> outstream \<Rightarrow> bytes \<Rightarrow> nat \<Rightarrow> double \<Rightarrow> double \<Rightarrow> dec_run" where
  "scryptdec_file h P infile outfile passwd maxmem maxmemfrac maxtime =
     (let untouched = \<lparr>status = None, out = out_data outfile, dk_left = None, outlen = None,
                       derivations = []\<rparr>;
          (got, header7, infile) = fread_item 7 infile
      in if \<not> got then untouched\<lparr>status := Some (if ferror infile then Rc 13 else Rc 7)\<rparr>
         else if take 6 header7 \<noteq> magic then untouched\<lparr>status := Some (Rc 7)\<rparr>
         else if header7 ! 6 \<noteq> 0 then untouched\<lparr>status := Some (Rc 8)\<rparr>
         else
           let (got, header89, infile) = fread_item 89 infile
           in if \<not> got then untouched\<lparr>status := Some (if ferror infile then Rc 13 else Rc 7)\<rparr>
              else
                let header = header7 @ header89
                in case scryptdec_setup h P header passwd maxmem maxmemfrac maxtime of
                     Inl (rc, dk, calls) \<Rightarrow>
                       untouched\<lparr>status := Some rc, dk_left := dk, derivations := calls\<rparr>
                   | Inr (dk, calls) \<Rightarrow>
                       let key_enc = take 32 dk;
                           key_hmac = take 32 (drop 32 dk);
                           keyed = untouched\<lparr>dk_left := Some dk, derivations := calls\<rparr>;
                           hctx = HMAC_SHA256_Init key_hmac;
                           hctx = HMAC_SHA256_Update hctx (take 96 header)
                       in if \<not> aes_key_host h then keyed\<lparr>status := Some (Rc 5)\<rparr>
                          else if \<not> aesctr_host h then keyed\<lparr>status := Some (Rc 6)\<rparr>
                          else
                            let AES = crypto_aesctr_init key_enc 0;
                                (done, buf, infile, outfile, AES, hctx) =
                                   dec_loop P [] infile outfile AES hctx;
                                written = keyed\<lparr>out := out_data outfile\<rparr>
                            in if \<not> done then written\<lparr>status := Some (Rc 12)\<rparr>
                               else if ferror infile then written\<lparr>status := Some (Rc 13)\<rparr>
                               else if length buf < 32 then written\<lparr>status := Some (Rc 7)\<rparr>
                               else
                                 let hbuf = HMAC_SHA256_Final P hctx
                                 in if take 32 hbuf \<noteq> take 32 buf
                                    then written\<lparr>status := Some (Rc 7)\<rparr>
                                    else written\<lparr>status := None,
                                           dk_left := Some (replicate 64 0)\<rparr>)"

section \<open>Notions for stating the properties\<close>

text \<open>The header that \<open>scryptenc_setup\<close> builds from the parameters, the salt and the
  derived bytes.\<close>

definition header_of :: "prims \<Rightarrow> nat \<Rightarrow> nat \<Rightarrow> nat \<Rightarrow> bytes \<Rightarrow> bytes \<Rightarrow> bytes" where
  "header_of P logN r p salt dk =
     (let h48 = magic @ [0] @ [of_nat logN] @ be32enc r @ be32enc p @ salt;
          c = take 16 (sha256 P h48);
          sg = take 32 (hmac_sha256 P (take 32 (drop 32 dk)) (h48 @ c))
      in h48 @ c @ sg)"

text \<open>The plaintext that a run of \<open>scryptdec_buf\<close> has produced: the first \<open>*outlen\<close> bytes
  of \<open>outbuf\<close>, and nothing when the run has not set \<open>*outlen\<close>.\<close>

definition produced :: "dec_run \<Rightarrow> bytes" where
  "produced R = (case outlen R of None \<Rightarrow> [] | Some n \<Rightarrow> take n (out R))"

section \<open>Stand-in primitives for concrete runs\<close>

text \<open>Concrete runs need concrete primitives. These stand-ins have the shapes of the real
  ones (32-byte digests and tags, derived keys of the length asked for, a key stream) and
  are cheap to evaluate; \<open>crypto_scrypt\<close> fails with \<open>EINVAL\<close> (22) for \<open>N < 2\<close>, as
  the real one does.\<close>

definition toy_prims :: prims where
  "toy_prims =
     \<lparr>sha256 = (\<lambda>m. replicate 32 (sum_list m)),
      hmac_sha256 = (\<lambda>k m. replicate 32 (sum_list k + 2 * sum_list m + 1)),
      crypto_scrypt = (\<lambda>passwd salt N r p buflen.
        if N < 2 then Inl 22
        else Inr (replicate buflen (sum_list passwd + sum_list salt + of_nat (N + r + p)))),
      aes_keystream = (\<lambda>key nonce i. sum_list key + of_nat (nonce + i))\<rparr>"

text \<open>The record that \<open>KDF\<close> builds with the stand-ins for the password \<open>[1, 2, 3]\<close>,
  \<open>logN = 10\<close>, \<open>r = 8\<close>, \<open>p = 1\<close> and a salt of 32 sevens; the same record with the first
  byte of the magic altered and the checksum recomputed; a record with \<open>logN = 0\<close> and
  \<open>r = p = 2 ^ 32 - 1\<close>; a record with \<open>logN = 64\<close>; and a record with \<open>logN = 74\<close>. The
  last four carry the checksum of their first 48 bytes.\<close>

definition example_record :: bytes where
  "example_record =
     [0x73, 0x63, 0x72, 0x79, 0x70, 0x74, 0, 10, 0, 0, 0, 8, 0, 0, 0, 1]
     @ replicate 32 7 @ replicate 16 152 @ replicate 32 17"


definition unchecked_record :: bytes where
  "unchecked_record =
     [0x73, 0x63, 0x72, 0x79, 0x70, 0x74, 0, 0, 255, 255, 255, 255, 255, 255, 255, 255]
     @ replicate 32 7 @ replicate 16 125 @ replicate 32 0"

definition shift64_record :: bytes where
  "shift64_record =
     [0x73, 0x63, 0x72, 0x79, 0x70, 0x74, 0, 64, 0, 0, 0, 8, 0, 0, 0, 1]
     @ replicate 32 7 @ replicate 16 206 @ replicate 32 0"

definition wide_record :: bytes where
  "wide_record =
     [0x73, 0x63, 0x72, 0x79, 0x70, 0x74, 0, 74, 0, 0, 0, 8, 0, 0, 0, 1]
     @ replicate 32 7 @ replicate 16 216 @ replicate 32 0"


text \<open>The container that \<open>scryptenc_buf\<close> builds with the stand-ins for the plaintext
  \<open>[10, 20, 30]\<close> and the password \<open>[1, 2, 3]\<close> on a Windows host that measures 1000000
  operations per second, with \<open>maxtime = 300\<close> and a salt of 32 sevens; and the same
  container with the last byte of its tag changed.\<close>

definition example_header :: bytes where
  "example_header =
     [0x73, 0x63, 0x72, 0x79, 0x70, 0x74, 0, 10, 0, 0, 0, 8, 0, 0, 35, 195]
     @ replicate 32 7 @ replicate 16 125 @ replicate 32 187"

definition example_container :: bytes where
  "example_container = example_header @ [42, 53, 60] @ replicate 32 177"

definition tampered_container :: bytes where
  "tampered_container = example_header @ [42, 53, 60] @ replicate 31 177 @ [176]"

definition example_host :: host where
  "example_host = win_host 8589934592 1000000 (replicate 32 7)"

text \<open>The container that \<open>scryptenc_buf\<close> builds for the same plaintext and password on the
  same host with \<open>maxtime\<close> a millisecond; its header is the example record.\<close>

definition small_container :: bytes where
  "small_container = example_record @ [234, 245, 252] @ replicate 32 7"

section \<open>Properties of the Memory Limiter\<close>

lemma memtouse_floor: "memtouse maxmem maxmemfrac avail = Inr m \<Longrightarrow> 1048576 \<le> m"
  by (auto simp: memtouse_def Let_def split: option.splits if_splits)

lemma memtouse_win_floor: "memtouse_win pr maxmem maxmemfrac = Inr m \<Longrightarrow> 1048576 \<le> m"
  by (auto simp: memtouse_win_def Let_def split: option.splits if_splits)

lemmas to_double_eval = to_double_def binade_def round_even_def scale2_def ilog2.simps

text \<open>The doubles round as the hardware does: the double nearest to one tenth; a tie
  between two doubles goes to the even one; and \<open>memtouse\<close> with the double nearest to
  0.3 as its fraction of 10 MiB returns 3145728, the product rounded, where the exact
  product truncates to 3145727.\<close>

lemma to_double_examples:
  "to_double (1 / 10) = 3602879701896397 / 2 ^ 55"
  "to_double (2 ^ 53 + 1) = 2 ^ 53"
  "to_double (2 ^ 53 + 3) = 2 ^ 53 + 4"
  "to_double 8589934592 = 8589934592"
  by (simp_all add: to_double_eval Let_def)

lemma memtouse_rounds:
  "memtouse 0 (5404319552844595 / 2 ^ 54) 10485760 = Inr 3145728"
  "nat \<lfloor>5404319552844595 / 2 ^ 54 * (10485760 :: real)\<rfloor> = 3145727"
  by (simp_all add: memtouse_def double_to_size_def to_double_eval Let_def)

text \<open>The brackets of \<open>ilog2\<close> and \<open>binade\<close>, and bounds of the rounding.\<close>

lemma ilog2_bounds: "1 \<le> n \<Longrightarrow> 2 ^ ilog2 n \<le> n \<and> n < 2 ^ Suc (ilog2 n)"
proof (induction n rule: ilog2.induct)
  case (1 n)
  show ?case
  proof (cases "n < 2")
    case True
    with "1.prems" have "n = 1" by simp
    then show ?thesis by (simp add: ilog2.simps)
  next
    case False
    then have step: "ilog2 n = Suc (ilog2 (n div 2))" by (subst ilog2.simps) simp
    from False have "1 \<le> n div 2" by simp
    with "1.IH" False have ih: "2 ^ ilog2 (n div 2) \<le> n div 2"
      "n div 2 < 2 ^ Suc (ilog2 (n div 2))" by simp_all
    have "2 * 2 ^ ilog2 (n div 2) \<le> 2 * (n div 2)" using ih(1) by simp
    also have "\<dots> \<le> n" by simp
    finally have lo: "2 ^ ilog2 n \<le> n" by (simp add: step)
    have "n div 2 + 1 \<le> 2 ^ Suc (ilog2 (n div 2))" using ih(2) by simp
    then have "2 * (n div 2) + 2 \<le> 2 * 2 ^ Suc (ilog2 (n div 2))" by simp
    moreover have "n < 2 * (n div 2) + 2" by presburger
    ultimately have "n < 2 ^ Suc (ilog2 n)" by (simp add: step)
    with lo show ?thesis by simp
  qed
qed

lemma ilog2_real:
  assumes "1 \<le> n"
  shows "(2::real) ^ ilog2 n \<le> real n" and "real n + 1 \<le> 2 ^ Suc (ilog2 n)"
proof -
  note b = ilog2_bounds [OF assms]
  from b have "real (2 ^ ilog2 n) \<le> real n" by (simp only: of_nat_le_iff)
  then show "(2::real) ^ ilog2 n \<le> real n" by (simp only: of_nat_power of_nat_numeral)
  from b have "n + 1 \<le> 2 ^ Suc (ilog2 n)" by simp
  then have "real (n + 1) \<le> real (2 ^ Suc (ilog2 n))" by (simp only: of_nat_le_iff)
  then show "real n + 1 \<le> 2 ^ Suc (ilog2 n)"
    by (simp only: of_nat_power of_nat_numeral of_nat_add of_nat_1)
qed

lemma scale2_powi: "scale2 x k = x * 2 powi k"
proof (cases "0 \<le> k")
  case True
  then show ?thesis by (simp add: scale2_def power_int_def)
next
  case False
  then have "scale2 x k = x / 2 ^ nat (- k)" by (simp add: scale2_def)
  also have "\<dots> = x * inverse (2 ^ nat (- k))" by (rule divide_inverse)
  also have "inverse ((2::real) ^ nat (- k)) = inverse 2 ^ nat (- k)"
    by (rule power_inverse [symmetric])
  also have "inverse 2 ^ nat (- k) = (2::real) powi k"
    using False by (simp only: power_int_def if_False)
  finally show ?thesis .
qed

lemma round_even_bounds: "\<lfloor>y\<rfloor> \<le> round_even y" "round_even y \<le> \<lfloor>y\<rfloor> + 1"
  by (simp_all add: round_even_def Let_def)

lemma round_even_of_int [simp]: "round_even (of_int k) = k"
  by (simp add: round_even_def Let_def)

lemma binade_ge_1:
  assumes "1 \<le> x"
  shows "0 \<le> binade x" and "2 powi binade x \<le> x" and "x < 2 powi (binade x + 1)"
proof -
  define n where "n = nat \<lfloor>x\<rfloor>"
  have n1: "1 \<le> n" using assms by (simp add: n_def le_nat_floor)
  have nx: "real n \<le> x" "x < real n + 1" using assms by (simp_all add: n_def)
  note b = ilog2_real [OF n1]
  have e: "binade x = int (ilog2 n)" using assms by (simp add: binade_def n_def)
  show "0 \<le> binade x" by (simp add: e)
  have "(2::real) powi binade x = 2 ^ ilog2 n" by (simp add: e)
  also have "\<dots> \<le> real n" by (rule b(1))
  also have "\<dots> \<le> x" by (rule nx(1))
  finally show "2 powi binade x \<le> x" .
  have "binade x + 1 = int (Suc (ilog2 n))" by (simp add: e)
  then have "(2::real) powi (binade x + 1) = 2 ^ Suc (ilog2 n)"
    by (simp only: power_int_of_nat)
  moreover have "x < 2 ^ Suc (ilog2 n)" using nx(2) b(2) by (rule less_le_trans)
  ultimately show "x < 2 powi (binade x + 1)" by simp
qed

lemma binade_lt_1:
  assumes "0 < x" and "x < 1"
  shows "binade x < 0" and "2 powi binade x \<le> x" and "x < 2 powi (binade x + 1)"
proof -
  define y where "y = 1 / x"
  have y1: "1 < y" using assms by (simp add: y_def)
  have xy: "x * y = 1" using assms by (simp add: y_def)
  define n where "n = nat \<lfloor>y\<rfloor>"
  have n1: "1 \<le> n" using y1 by (simp add: n_def le_nat_floor)
  have ny: "real n \<le> y" "y < real n + 1" using y1 by (simp_all add: n_def)
  define m where "m = ilog2 n"
  note b = ilog2_real [OF n1, folded m_def]
  have ylo: "2 ^ m \<le> y" using b(1) ny(1) by (rule order_trans)
  have yhi: "y < 2 ^ Suc m" using ny(2) b(2) by (rule less_le_trans)
  have "x * 2 ^ m \<le> x * y" using ylo assms(1) by (intro mult_left_mono) simp_all
  then have xhi: "x * 2 ^ m \<le> 1" by (simp only: xy)
  have "x * y < x * 2 ^ Suc m" using yhi assms(1) by (intro mult_strict_left_mono)
  then have xlo: "1 < x * 2 ^ Suc m" by (simp only: xy)
  have e: "binade x = (if x * 2 ^ m = 1 then - int m else - int m - 1)"
    using assms(2) by (simp add: binade_def y_def [symmetric] n_def [symmetric]
        m_def [symmetric] Let_def)
  have pos: "(0::real) < 2 ^ m" by simp
  have p1: "(2::real) powi (- int m) * 2 ^ m = 1"
    by (simp add: power_int_minus)
  have p2: "(2::real) powi (- int m - 1) * 2 ^ Suc m = 1"
  proof -
    have "- int m - 1 = - int (Suc m)" by simp
    then have eq: "(2::real) powi (- int m - 1) = inverse (2 ^ Suc m)"
      by (simp only: power_int_minus power_int_of_nat)
    have "inverse ((2::real) ^ Suc m) * 2 ^ Suc m = 1" by (rule left_inverse) simp
    then show ?thesis unfolding eq .
  qed
  have p3: "(2::real) powi (- int m + 1) = 2 * 2 powi (- int m)"
    using power_int_add [of "2::real" 1 "- int m"] by simp
  have q2: "(2::real) powi (- int m - 1 + 1) = 2 powi (- int m)" by simp
  show "binade x < 0" and "2 powi binade x \<le> x" and "x < 2 powi (binade x + 1)"
  proof -
    have "binade x < 0 \<and> 2 powi binade x \<le> x \<and> x < 2 powi (binade x + 1)"
    proof (cases "x * 2 ^ m = 1")
      case True
      then have e': "binade x = - int m" by (simp add: e)
      have "m \<noteq> 0" using True assms(2) by (cases m) simp_all
      then have c1: "binade x < 0" by (simp add: e')
      have "(2::real) powi (- int m) * 2 ^ m = x * 2 ^ m" using p1 True by simp
      then have eqx: "(2::real) powi (- int m) = x" using pos by simp
      have c2: "2 powi binade x \<le> x" by (simp only: e' eqx)
      have "x < 2 * x" using assms(1) by simp
      then have c3: "x < 2 powi (binade x + 1)" by (simp only: e' p3 eqx)
      from c1 c2 c3 show ?thesis by simp
    next
      case False
      then have e': "binade x = - int m - 1" by (simp add: e)
      have c1: "binade x < 0" by (simp add: e')
      have "2 powi (- int m - 1) * 2 ^ Suc m < x * 2 ^ Suc m" using xlo by (simp only: p2)
      moreover have "(0::real) < 2 ^ Suc m" by simp
      ultimately have "(2::real) powi (- int m - 1) < x"
        by (simp only: mult_less_cancel_right_pos)
      then have c2: "2 powi binade x \<le> x" by (simp only: e')
      from False xhi have "x * 2 ^ m < 2 powi (- int m) * 2 ^ m" by (simp add: p1)
      then have "x < 2 powi (- int m)"
        using pos by (simp only: mult_less_cancel_right_pos)
      then have c3: "x < 2 powi (binade x + 1)" by (simp only: e' q2)
      from c1 c2 c3 show ?thesis by simp
    qed
    then show "binade x < 0" and "2 powi binade x \<le> x" and "x < 2 powi (binade x + 1)"
      by simp_all
  qed
qed

lemma binade_bounds:
  assumes "0 < x"
  shows "2 powi binade x \<le> x" and "x < 2 powi (binade x + 1)"
  using binade_ge_1 [of x] binade_lt_1 [of x] assms by (cases "1 \<le> x"; simp)+

lemma to_double_pos:
  assumes "0 < x"
  shows "to_double x
    = of_int (round_even (x * 2 powi (52 - max (binade x) (- 1022))))
      * 2 powi (max (binade x) (- 1022) - 52)"
  using assms by (simp add: to_double_def Let_def scale2_powi)

lemma to_double_nonneg: "0 \<le> x \<Longrightarrow> 0 \<le> to_double x"
proof (cases "x = 0")
  case True
  then show ?thesis by (simp add: to_double_def)
next
  case False
  assume "0 \<le> x"
  with False have pos: "0 < x" by simp
  define e where "e = max (binade x) (- 1022)"
  have "0 \<le> x * 2 powi (52 - e)" using pos by simp
  then have "0 \<le> \<lfloor>x * 2 powi (52 - e)\<rfloor>" by simp
  also have "\<dots> \<le> round_even (x * 2 powi (52 - e))" by (rule round_even_bounds)
  finally have "0 \<le> round_even (x * 2 powi (52 - e))" .
  then have "(0::real) \<le> of_int (round_even (x * 2 powi (52 - e))) * 2 powi (e - 52)"
    by simp
  then show ?thesis by (simp only: to_double_pos [OF pos] e_def)
qed

lemma to_double_le_power:
  assumes "0 \<le> x" and "x \<le> 2 ^ k"
  shows "to_double x \<le> 2 ^ k"
proof (cases "x = 0")
  case True
  then show ?thesis by (simp add: to_double_def)
next
  case False
  with assms(1) have pos: "0 < x" by simp
  define e where "e = max (binade x) (- 1022)"
  define y where "y = x * 2 powi (52 - e)"
  define r where "r = round_even y"
  have td: "to_double x = of_int r * 2 powi (e - 52)"
    by (simp only: to_double_pos [OF pos] e_def y_def r_def)
  note b = binade_bounds [OF pos]
  have ee: "binade x \<le> e" by (simp add: e_def)
  have "(2::real) powi (binade x + 1) \<le> 2 powi (e + 1)"
    using ee by (intro power_int_increasing) simp_all
  with b(2) have xe: "x < 2 powi (e + 1)" by simp
  have sp: "(2::real) powi (e + 1) * 2 powi (52 - e) = 2 powi 53"
    using power_int_add [of "2::real" "e + 1" "52 - e"] by simp
  have "y < 2 powi (e + 1) * 2 powi (52 - e)"
    unfolding y_def using xe by (intro mult_strict_right_mono) simp_all
  then have y53: "y < 2 ^ 53" by (simp only: sp power_int_numeral)
  show ?thesis
  proof (cases "e + 1 \<le> int k")
    case True
    have "\<lfloor>y\<rfloor> < 2 ^ 53" using y53 by (simp add: floor_less_iff)
    then have "\<lfloor>y\<rfloor> + 1 \<le> 2 ^ 53" by simp
    with round_even_bounds(2) [of y] have "round_even y \<le> 2 ^ 53" by (rule order_trans)
    then have "r \<le> 2 ^ 53" by (simp only: r_def)
    then have "(of_int r :: real) \<le> of_int (2 ^ 53)" by (simp only: of_int_le_iff)
    then have "(of_int r :: real) \<le> 2 powi 53" by simp
    then have "of_int r * 2 powi (e - 52) \<le> 2 powi 53 * (2::real) powi (e - 52)"
      by (intro mult_right_mono) simp_all
    also have "(2::real) powi 53 * 2 powi (e - 52) = 2 powi (e + 1)"
      using power_int_add [of "2::real" 53 "e - 52"] by (simp add: add.commute)
    also have "(2::real) powi (e + 1) \<le> 2 powi int k"
      using True by (intro power_int_increasing) simp_all
    finally show ?thesis by (simp add: td)
  next
    case False
    then have ek: "int k \<le> e" by simp
    then have "e \<noteq> - 1022" by simp
    then have e0: "e = binade x" by (simp add: e_def max_def split: if_splits)
    have le: "(2::real) powi e \<le> 2 powi int k" using b(1) assms(2) by (simp add: e0)
    have "e \<le> int k"
    proof (rule power_int_le_imp_le_exp)
      show "1 < (2::real)" by simp
      show "(2::real) powi e \<le> 2 powi int k" by (rule le)
      show "0 \<le> int k" by simp
    qed
    with ek have ek': "e = int k" by simp
    have "2 ^ k \<le> x" using b(1) by (simp add: e0 [symmetric] ek')
    with assms(2) have x: "x = 2 ^ k" by simp
    have "y = 2 powi int k * 2 powi (52 - int k)" by (simp add: y_def x ek')
    also have "\<dots> = 2 powi 52"
      using power_int_add [of "2::real" "int k" "52 - int k"] by simp
    finally have "y = of_int (2 ^ 52)" by simp
    then have "r = 2 ^ 52" by (simp only: r_def round_even_of_int)
    then have "to_double x = 2 powi 52 * 2 powi (int k - 52)" by (simp add: td ek')
    also have "\<dots> = 2 powi int k"
      using power_int_add [of "2::real" 52 "int k - 52"] by simp
    finally show ?thesis by simp
  qed
qed

text \<open>With a fraction that is not negative, \<open>memtouse\<close> of \<open>src/util/memlimit.c\<close>
  takes the fraction of the available memory, caps it and raises it to 1 MiB: the
  conversion to \<open>size_t\<close> is defined.\<close>

lemma memtouse_fraction:
  assumes "0 \<le> maxmemfrac" and "avail < 2 ^ 64"
  shows "memtouse maxmem maxmemfrac avail =
     Inr (max 1048576
       (let part = nat \<lfloor>to_double
              ((if maxmemfrac > 1 / 2 \<or> maxmemfrac = 0 then 1 / 2 else maxmemfrac)
               * to_double (real avail))\<rfloor>
        in if maxmem > 0 \<and> part > maxmem then maxmem else part))"
proof -
  define f where "f = (if maxmemfrac > 1 / 2 \<or> maxmemfrac = 0 then 1 / 2 else maxmemfrac)"
  define d where "d = to_double (real avail)"
  have f: "0 \<le> f" "f \<le> 1 / 2" using assms(1) by (auto simp: f_def)
  have av: "0 \<le> real avail" "real avail \<le> 2 ^ 64" using assms(2) by simp_all
  have d: "0 \<le> d" "d \<le> 2 ^ 64"
    unfolding d_def by (rule to_double_nonneg [OF av(1)], rule to_double_le_power [OF av])
  have "f * d \<le> 1 / 2 * d" using f d(1) by (intro mult_right_mono) simp_all
  also have "\<dots> \<le> 2 ^ 63" using d(2) by simp
  finally have hi: "f * d \<le> 2 ^ 63" .
  have lo: "0 \<le> f * d" using f d by simp
  have p: "0 \<le> to_double (f * d)" "to_double (f * d) \<le> 2 ^ 63"
    by (rule to_double_nonneg [OF lo], rule to_double_le_power [OF lo hi])
  have "(2::real) ^ 63 < 2 ^ 64" by simp
  with p(2) have "to_double (f * d) < 2 ^ 64" by (rule le_less_trans)
  with p(1) have "double_to_size (to_double (f * d)) = Some (nat \<lfloor>to_double (f * d)\<rfloor>)"
    by (simp add: double_to_size_def)
  then show ?thesis
    unfolding memtouse_def f_def [symmetric] d_def [symmetric] by (simp add: Let_def max_def)
qed

text \<open>\<open>memtouse\<close> of \<open>scrypt/win/memlimit.c\<close> casts the fraction, which is at most one
  half, to \<open>size_t\<close> before it multiplies: whatever the probes and the fraction, the
  product is 0 and the result is the floor of 1 MiB.\<close>

lemma memtouse_win_constant:
  "memtouse_win pr maxmem maxmemfrac = Inr m \<Longrightarrow> m = 1048576"
  by (auto simp: memtouse_win_def Let_def double_to_size_def split: option.splits if_splits)

lemma memtouse_win_host [simp]:
  "memtouse_host (win_host rlimit opps salt) maxmem (1 / 2) = Inr 1048576"
  by (simp add: win_host_def memtouse_win_def win_probes_def SIZE_MAX_def double_to_size_def)

lemma win_host_fields [simp]:
  "cpuperf_host (win_host rlimit opps salt) = Inr opps"
  "entropy_host (win_host rlimit opps salt) = Some salt"
  "aes_key_host (win_host rlimit opps salt)"
  "aesctr_host (win_host rlimit opps salt)"
  by (simp_all add: win_host_def)

text \<open>
  C5. The header \<open>memlimit.h\<close> documents \<open>memtouse\<close> as returning the specified
  fraction of the available memory, no more than \<open>maxmem\<close> and no less than 1 MiB. On a
  host whose smallest memory signal is 8 GiB, with no cap and the fraction one half,
  \<open>memtouse\<close> of \<open>src/util/memlimit.c\<close> returns 4 GiB, while \<open>memtouse\<close> of
  \<open>scrypt/win/memlimit.c\<close> returns 1 MiB: its \<open>(size_t)maxmemfrac * memlimit_min\<close> is 0.
\<close>

theorem memtouse_win_drops_fraction:
  "memtouse_win (win_probes 8589934592) 0 (1 / 2) = Inr 1048576
   \<and> memtouse 0 (1 / 2) 8589934592 = Inr 4294967296"
  by (simp add: memtouse_win_def win_probes_def SIZE_MAX_def memtouse_def double_to_size_def
      to_double_eval Let_def)

section \<open>Properties of the Parameter Selector\<close>

lemma pick_logN_range: "l \<le> 63 \<Longrightarrow> l \<le> pick_logN maxN l \<and> pick_logN maxN l \<le> 63"
proof (induction maxN l rule: pick_logN.induct)
  case (1 maxN logN)
  show ?case
  proof (cases "logN < 63 \<and> \<not> real (2 ^ logN) > maxN / 2")
    case True
    then have "pick_logN maxN logN = pick_logN maxN (logN + 1)"
      by (subst pick_logN.simps) simp
    moreover have "logN + 1 \<le> pick_logN maxN (logN + 1) \<and> pick_logN maxN (logN + 1) \<le> 63"
      using True "1.IH" by simp
    ultimately show ?thesis by simp
  next
    case False
    then have "pick_logN maxN logN = logN"
      by (subst pick_logN.simps) auto
    then show ?thesis using "1.prems" by simp
  qed
qed

lemma pick_logN_fits: "l < pick_logN maxN l \<Longrightarrow> real (2 ^ pick_logN maxN l) \<le> maxN"
proof (induction maxN l rule: pick_logN.induct)
  case (1 maxN logN)
  show ?case
  proof (cases "logN < 63 \<and> \<not> real (2 ^ logN) > maxN / 2")
    case True
    then have step: "pick_logN maxN logN = pick_logN maxN (logN + 1)"
      by (subst pick_logN.simps) simp
    show ?thesis
    proof (cases "logN + 1 < pick_logN maxN (logN + 1)")
      case True
      with \<open>logN < 63 \<and> \<not> real (2 ^ logN) > maxN / 2\<close> "1.IH" step show ?thesis by simp
    next
      case False
      moreover have "logN + 1 \<le> pick_logN maxN (logN + 1)"
        using pick_logN_range [of "logN + 1" maxN] True by simp
      ultimately have "pick_logN maxN (logN + 1) = logN + 1" by simp
      with step True show ?thesis by simp
    qed
  next
    case False
    then have "pick_logN maxN logN = logN"
      by (subst pick_logN.simps) auto
    with "1.prems" show ?thesis by simp
  qed
qed

lemma pick_logN_from_1:
  assumes "4 \<le> maxN"
  shows "1 < pick_logN maxN (Suc 0)" and "pick_logN maxN (Suc 0) \<le> 63"
    and "real (2 ^ pick_logN maxN (Suc 0)) \<le> maxN"
proof -
  have "pick_logN maxN (Suc 0) = pick_logN maxN 2"
    using assms by (subst pick_logN.simps) (simp add: numeral_2_eq_2)
  moreover have "2 \<le> pick_logN maxN 2"
    using pick_logN_range [of 2 maxN] by simp
  ultimately show "1 < pick_logN maxN (Suc 0)" by simp
  then have "Suc 0 < pick_logN maxN (Suc 0)" by simp
  then show "real (2 ^ pick_logN maxN (Suc 0)) \<le> maxN" by (rule pick_logN_fits)
  show "pick_logN maxN (Suc 0) \<le> 63" using pick_logN_range [of "Suc 0" maxN] by simp
qed

lemma pickparams_limits_ok:
  assumes mem: "4096 \<le> memlimit"
    and ops: "32768 \<le> opps * maxtime"
    and pick: "pickparams_limits memlimit opps maxtime = (logN, r, p)"
  shows "1 \<le> logN \<and> logN \<le> 63 \<and> r = 8 \<and> 1 \<le> p \<and> r * p < 2 ^ 30
    \<and> 128 \<le> (memlimit div 2 ^ logN) div r
    \<and> 4 \<le> (opps * maxtime / real (2 ^ logN)) / real (r * p)"
proof -
  define L where "L = opps * maxtime"
  define D where "D = L / real (2 ^ logN)"
  have L: "32768 \<le> L" using ops by (simp add: L_def)
  show ?thesis
  proof (cases "L < real (memlimit div 32)")
    case True
    have res: "logN = pick_logN (L / 32) (Suc 0)" "r = 8" "p = 1"
      using pick True L by (auto simp: pickparams_limits_def Let_def L_def)
    have "4 \<le> L / 32" using L by simp
    note lg = pick_logN_from_1 [OF this]
    have c1: "1 \<le> logN" "logN \<le> 63" "r = 8" "1 \<le> p" "r * p < 2 ^ 30"
      using lg res by simp_all
    have fit: "real (2 ^ logN) * 32 \<le> L" using lg(3) res by simp
    with True have "real (2 ^ logN * 32) < real (memlimit div 32)" by simp
    then have "2 ^ logN * 32 < memlimit div 32" by (simp only: of_nat_less_iff)
    then have "2 ^ logN * 1024 \<le> memlimit" by simp
    then have "1024 \<le> memlimit div 2 ^ logN"
      by (simp add: less_eq_div_iff_mult_less_eq mult.commute)
    then have c2: "128 \<le> (memlimit div 2 ^ logN) div r" using res by simp
    have "0 < real (2 ^ logN)" by simp
    then have "32 \<le> L / real (2 ^ logN)" using fit by (simp add: pos_le_divide_eq mult.commute)
    then have "32 \<le> D" by (simp add: D_def)
    then have "4 \<le> D / real (r * p)" using res(2,3) by simp
    then have c3: "4 \<le> (opps * maxtime / real (2 ^ logN)) / real (r * p)"
      by (simp only: D_def L_def)
    from c1 c2 c3 show ?thesis by blast
  next
    case False
    define K where "K = memlimit div 1024"
    define maxrp where "maxrp = (if (L / 4) / real (2 ^ logN) > 1073741823 then 1073741823 else (L / 4) / real (2 ^ logN))"
    have res: "logN = pick_logN (real K) (Suc 0)" "r = 8"
      using pick False L by (auto simp: pickparams_limits_def Let_def L_def K_def)
    have resp: "p = nat \<lfloor>maxrp\<rfloor> div 8"
      using pick False L unfolding maxrp_def res(1) K_def
      by (auto simp: pickparams_limits_def Let_def L_def)
    have "4 \<le> K" using mem by (simp add: K_def)
    then have "4 \<le> real K" by simp
    note lg = pick_logN_from_1 [OF this]
    have c1: "1 \<le> logN" "logN \<le> 63" "r = 8" using lg res by simp_all
    have "real (2 ^ logN) \<le> real K" using lg(3) res by simp
    then have NK: "2 ^ logN \<le> K" by (simp only: of_nat_le_iff)
    then have "2 ^ logN * 1024 \<le> memlimit" by (simp add: K_def)
    then have "1024 \<le> memlimit div 2 ^ logN"
      by (simp add: less_eq_div_iff_mult_less_eq mult.commute)
    then have c2: "128 \<le> (memlimit div 2 ^ logN) div r" using res by simp
    have "32 * K \<le> memlimit div 32" by (simp add: K_def)
    with NK have "32 * 2 ^ logN \<le> memlimit div 32" by simp
    then have "real (32 * 2 ^ logN) \<le> real (memlimit div 32)" by (simp only: of_nat_le_iff)
    with False have fit: "32 * real (2 ^ logN) \<le> L" by simp
    have pos: "0 < real (2 ^ logN)" by simp
    have "8 \<le> (L / 4) / real (2 ^ logN)"
      using fit pos by (simp add: pos_le_divide_eq mult.commute)
    then have m8: "8 \<le> maxrp" and mle: "maxrp \<le> (L / 4) / real (2 ^ logN)"
      and mcap: "maxrp \<le> 1073741823"
      by (simp_all add: maxrp_def)
    have fl8: "8 \<le> nat \<lfloor>maxrp\<rfloor>" using m8 by (simp add: le_nat_floor)
    then have c4: "1 \<le> p" using resp by simp
    have flcap: "nat \<lfloor>maxrp\<rfloor> \<le> 1073741823"
      using mcap m8 by (simp add: nat_le_iff floor_le_iff)
    have rp: "r * p \<le> nat \<lfloor>maxrp\<rfloor>" using res resp by simp
    with flcap have c5: "r * p < 2 ^ 30" by simp
    have "real (nat \<lfloor>maxrp\<rfloor>) \<le> maxrp" using m8 by simp
    with rp have "real (r * p) \<le> maxrp" by (meson of_nat_le_iff order_trans)
    with mle have "real (r * p) \<le> (L / 4) / real (2 ^ logN)" by simp
    then have "4 * real (r * p) \<le> L / real (2 ^ logN)" by simp
    then have "4 * real (r * p) \<le> D" by (simp add: D_def)
    moreover have "0 < real (r * p)" using c4 res by simp
    ultimately have "4 \<le> D / real (r * p)"
      by (simp only: pos_le_divide_eq)
    then have c3: "4 \<le> (opps * maxtime / real (2 ^ logN)) / real (r * p)"
      by (simp only: D_def L_def)
    from c1 c2 c3 c4 c5 show ?thesis by blast
  qed
qed

lemma pick_logN_1024: "pick_logN 1024 (Suc 0) = 10"
  by (simp add: pick_logN.simps)

lemma pickparams_limits_100000:
  "pickparams_limits 1048576 1000000 (1 / 10) = (10, 8, 3)"
  by (simp add: pickparams_limits_def Let_def pick_logN_1024)

lemma pickparams_limits_1000:
  "pickparams_limits 1048576 1000000 (1 / 1000) = (10, 8, 1)"
  by (simp add: pickparams_limits_def Let_def pick_logN_1024)


text \<open>
  C3, as stated: with a memory budget of 1048576 bytes, 1000000 operations per second
  and 0.1 seconds, the selection would return \<open>logN = 11\<close> and \<open>p = 1\<close>. It does not:
  the operations budget 100000 is not below \<open>1048576 / 32 = 32768\<close>.
\<close>

theorem pickparams_scenario_counterexample:
  "\<not> (1000000 * (1 / 10) < real (1048576 div 32))
   \<and> pickparams (win_host 8589934592 1000000 (replicate 32 0)) 0 (1 / 2) (1 / 10)
       \<noteq> Inr (11, 8, 1)"
  by (simp add: pickparams_def pickparams_limits_100000)

text \<open>
  C3, amended: in that scenario the operations budget is 100000, which is not below
  \<open>1048576 / 32 = 32768\<close>, so the memory limit chooses \<open>N\<close>: both \<open>pickparams\<close> return
  \<open>logN = 10\<close> (\<open>N = 1024\<close>, as \<open>128 * 1024 * 8 = 1048576\<close>), \<open>r = 8\<close> and
  \<open>p = 3\<close> (\<open>100000 / 4 / 1024 = 24.4\<close>, and \<open>24 / 8 = 3\<close>).
\<close>

theorem pickparams_scenario:
  "pickparams (win_host 8589934592 1000000 (replicate 32 0)) 0 (1 / 2) (1 / 10) = Inr (10, 8, 3)
   \<and> pickparams_wrapper (Inr 1000000) (1 / 10) 0 (1 / 2) 2097152 = Inr (10, 8, 3)"
  by (simp add: pickparams_def pickparams_wrapper_def memtouse_def
      double_to_size_def to_double_eval Let_def pickparams_limits_100000)




section \<open>Properties of the verification record\<close>

lemma be32dec_be32enc: "x < 2 ^ 32 \<Longrightarrow> be32dec (be32enc x) = x"
proof -
  assume "x < 2 ^ 32"
  then have "x = x mod (16777216 * 256)" by simp
  also have "\<dots> = 16777216 * (x div 16777216 mod 256) + x mod 16777216"
    by (rule mod_mult2_eq)
  also have "x mod 16777216 = x mod (65536 * 256)" by simp
  also have "\<dots> = 65536 * (x div 65536 mod 256) + x mod 65536"
    by (rule mod_mult2_eq)
  also have "x mod 65536 = x mod (256 * 256)" by simp
  also have "\<dots> = 256 * (x div 256 mod 256) + x mod 256"
    by (rule mod_mult2_eq)
  finally have e: "x = 16777216 * (x div 16777216 mod 256)
      + (65536 * (x div 65536 mod 256) + (256 * (x div 256 mod 256) + x mod 256))" .
  have d: "be32dec (be32enc x) = 16777216 * (x div 16777216 mod 256)
      + (65536 * (x div 65536 mod 256) + (256 * (x div 256 mod 256) + x mod 256))"
    by (simp add: be32dec_def be32enc_def unat_of_nat)
  show ?thesis by (subst d) (rule e [symmetric])
qed

lemma length_be32enc [simp]: "length (be32enc x) = 4"
  by (simp add: be32enc_def)

lemma length_magic [simp]: "length magic = 6"
  by (simp add: magic_def)

text \<open>The fields of a 96-byte record that is laid out as the codec writes it.\<close>

lemma record_fields:
  assumes "length m = 6" and "length sl = 32" and "length c = 16" and "length sg = 32"
    and "kdf = m @ [v] @ [l] @ be32enc r @ be32enc p @ sl @ c @ sg"
  shows "length kdf = 96" and "take 6 kdf = m" and "kdf ! 6 = v" and "kdf ! 7 = l"
    and "take 4 (drop 8 kdf) = be32enc r" and "take 4 (drop 12 kdf) = be32enc p"
    and "take 32 (drop 16 kdf) = sl"
    and "take 48 kdf = m @ [v] @ [l] @ be32enc r @ be32enc p @ sl"
    and "take 16 (drop 48 kdf) = c"
    and "take 64 kdf = m @ [v] @ [l] @ be32enc r @ be32enc p @ sl @ c"
    and "take 32 (drop 64 kdf) = sg"
  using assms by (simp_all add: nth_append)

lemma shl64_1: "shl64 1 n = 2 ^ (n mod 64)" "shl64 (Suc 0) n = 2 ^ (n mod 64)"
proof -
  have "n mod 64 < 64" by simp
  then have "(2::nat) ^ (n mod 64) < 2 ^ 64" by (simp only: power_strict_increasing_iff)
  then show "shl64 1 n = 2 ^ (n mod 64)" "shl64 (Suc 0) n = 2 ^ (n mod 64)"
    by (simp_all add: shl64_def)
qed

lemma unat_ucast_byte_mod: "unat (ucast w :: byte) mod 64 = unat w mod 64"
  for w :: "32 word"
proof -
  have "unat (ucast w :: byte) = unat w mod 256"
    by (simp add: unsigned_ucast_eq take_bit_eq_mod)
  moreover have "unat w mod 256 mod 64 = unat w mod 64"
    by (rule mod_mod_cancel) simp
  ultimately show ?thesis by simp
qed

lemma KDF_Verify:
  assumes ok: "prims_ok P" and kdf: "KDF P passwd logN r p salt = Inr kdf"
  shows "Verify P kdf passwd
         = (None, [(passwd, take 32 salt, 2 ^ (unat logN mod 64), unat r, unat p, 64)])"
proof -
  from kdf have salt: "32 \<le> length salt"
    by (auto simp: KDF_def split: if_splits)
  from kdf salt obtain dk where
    dk: "ScryptHashFunction P passwd (take 32 salt) (2 ^ (unat logN mod 64)) (unat r) (unat p) 64
         = Inr dk"
    by (auto simp: KDF_def Let_def shl64_1 split: sum.splits)
  define sl where "sl = take 32 salt"
  define h48 where "h48 = magic @ [0] @ [ucast logN] @ be32enc (unat r) @ be32enc (unat p) @ sl"
  define c where "c = take 16 (sha256 P h48)"
  define sg where "sg = take 32 (hmac_sha256 P (take 32 (drop 32 dk)) (h48 @ c))"
  have len: "length magic = 6" "length sl = 32" "length c = 16" "length sg = 32"
    using ok salt by (simp_all add: sl_def c_def sg_def prims_ok_def)
  have l48: "length h48 = 48" using len by (simp add: h48_def)
  have "kdf = h48 @ c @ sg"
    using kdf unfolding KDF_def Let_def shl64_1 sl_def [symmetric] h48_def [symmetric]
    using salt dk [folded sl_def] l48 len(3)
    by (simp add: c_def [symmetric] sg_def [symmetric])
  then have kdf_eq: "kdf = magic @ [0] @ [ucast logN] @ be32enc (unat r) @ be32enc (unat p)
      @ sl @ c @ sg"
    by (simp add: h48_def)
  note f = record_fields [OF len kdf_eq]
  have b7: "unat (kdf ! 7) mod 64 = unat logN mod 64"
    by (simp add: f unat_ucast_byte_mod)
  have r: "be32dec (take 4 (drop 8 kdf)) = unat r" and p: "be32dec (take 4 (drop 12 kdf)) = unat p"
    using unsigned_less [of r, where ?'a = nat] unsigned_less [of p, where ?'a = nat]
    by (simp_all add: f be32dec_be32enc)
  have t48: "take 48 kdf = h48" and t64: "take 64 kdf = h48 @ c"
    by (simp_all add: f h48_def)
  show ?thesis
    unfolding Verify_def shl64_1 b7
    using dk
    by (simp add: r p t48 t64 f(1,7,9,11) Let_def c_def [symmetric] sg_def [symmetric]
        sl_def [symmetric])
qed

lemma prims_ok_toy: "prims_ok toy_prims"
  by (auto simp: prims_ok_def toy_prims_def split: if_splits)

lemma toy_simps [simp]:
  "sha256 toy_prims m = replicate 32 (sum_list m)"
  "hmac_sha256 toy_prims k m = replicate 32 (sum_list k + 2 * sum_list m + 1)"
  "crypto_scrypt toy_prims passwd salt N r p buflen =
     (if N < 2 then Inl 22
      else Inr (replicate buflen (sum_list passwd + sum_list salt + of_nat (N + r + p))))"
  "aes_keystream toy_prims key nonce i = sum_list key + of_nat (nonce + i)"
  by (simp_all add: toy_prims_def)


lemma Verify_derives:
  "96 \<le> length kdf
   \<Longrightarrow> take 16 (drop 48 kdf) = take 16 (sha256 P (take 48 kdf))
   \<Longrightarrow> snd (Verify P kdf passwd)
       = [(passwd, take 32 (drop 16 kdf), 2 ^ (unat (kdf ! 7) mod 64),
           be32dec (take 4 (drop 8 kdf)), be32dec (take 4 (drop 12 kdf)), 64)]"
  by (simp add: Verify_def Let_def shl64_1 split: sum.splits)

lemma KDF_example:
  "KDF toy_prims [1, 2, 3] 10 8 1 (replicate 32 7) = Inr example_record"
  by (simp add: KDF_def shl64_1 ScryptHashFunction_def Let_def magic_def be32enc_def
      sum_list_replicate example_record_def)


lemma Verify_unchecked:
  "Verify toy_prims unchecked_record [1, 2, 3]
   = (Some (Rc 3), [([1, 2, 3], replicate 32 7, 1, 4294967295, 4294967295, 64)])"
  by (simp add: Verify_def shl64_1 ScryptHashFunction_def Let_def be32dec_def
      sum_list_replicate unchecked_record_def)

lemma Verify_shift64:
  "Verify toy_prims shift64_record [1, 2, 3]
   = (Some (Rc 3), [([1, 2, 3], replicate 32 7, 1, 8, 1, 64)])"
  by (simp add: Verify_def shl64_1 ScryptHashFunction_def Let_def be32dec_def
      sum_list_replicate shift64_record_def)

lemma shift64_checksum:
  "length shift64_record = 96 \<and> unat (shift64_record ! 7) = 64 \<and>
   take 16 (drop 48 shift64_record) = take 16 (sha256 toy_prims (take 48 shift64_record))"
  by (simp add: shift64_record_def sum_list_replicate)

lemma scryptdec_setup_rejects:
  assumes "memtouse_host h maxmem maxmemfrac = Inr memlimit" and "cpuperf_host h = Inr opps"
    and "take 16 (drop 48 header) = take 16 (sha256 P (take 48 header))"
    and "unat (header ! 7) < 1 \<or> 63 < unat (header ! 7)
         \<or> 2 ^ 30 \<le> be32dec (take 4 (drop 8 header)) * be32dec (take 4 (drop 12 header))"
  shows "scryptdec_setup h P header passwd maxmem maxmemfrac maxtime = Inl (Rc 7, None, [])"
  using assms by (auto simp: scryptdec_setup_def checkparams_def Let_def)

lemma scryptdec_buf_bad_magic:
  "take 6 inbuf \<noteq> magic
   \<Longrightarrow> scryptdec_buf h P inbuf outbuf passwd maxmem maxmemfrac maxtime
       = \<lparr>status = Some (Rc 7), out = outbuf, dk_left = None, outlen = None, derivations = []\<rparr>"
  by (simp add: scryptdec_buf_def Let_def)

lemma scryptdec_file_bad_magic:
  "7 \<le> length (in_data infile) \<Longrightarrow> take 6 (in_data infile) \<noteq> magic
   \<Longrightarrow> scryptdec_file h P infile outfile passwd maxmem maxmemfrac maxtime
       = \<lparr>status = Some (Rc 7), out = out_data outfile, dk_left = None, outlen = None,
          derivations = []\<rparr>"
  by (simp add: scryptdec_file_def fread_item_def Let_def)

text \<open>
  C2. For every password, and for every salt and cost parameters with which \<open>KDF\<close>
  builds a record (the parameters are valid: the derivation succeeds on them),
  \<open>Verify\<close> on that record and the same password returns 0, which \<open>kdfVerifySync\<close>
  turns into \<open>true\<close>. The primitives are any deterministic functions that fill their
  output buffers.
\<close>

theorem Verify_accepts_KDF_record:
  assumes "prims_ok P" and "KDF P passwd logN r p salt = Inr kdf"
  shows "fst (Verify P kdf passwd) = None \<and> kdfVerifySync P kdf passwd = Inr True"
  using KDF_Verify [OF assms] by (simp add: kdfVerifySync_def)

theorem Verify_accepts_KDF_record_witness:
  "prims_ok toy_prims
   \<and> KDF toy_prims [1, 2, 3] 10 8 1 (replicate 32 7) = Inr example_record
   \<and> fst (Verify toy_prims example_record [1, 2, 3]) = None
   \<and> kdfVerifySync toy_prims example_record [1, 2, 3] = Inr True"
  using Verify_accepts_KDF_record [OF prims_ok_toy KDF_example] prims_ok_toy KDF_example
  by simp

text \<open>
  C9, as stated: for every value 0..255 of the byte \<open>logN\<close>, \<open>Verify\<close> would pass
  \<open>N = 1 << logN\<close> to the derivation, with the value \<open>2 ^ logN mod 2 ^ 64\<close>, which is 0,
  for \<open>logN \<ge> 64\<close>. On a record with a correct checksum and \<open>logN = 64\<close> the count of
  the shift is taken modulo 64: \<open>Verify\<close> calls the derivation with \<open>N = 1\<close>, and returns
  3 as the derivation rejects that \<open>N\<close>.
\<close>

theorem Verify_shift_counterexample:
  "length shift64_record = 96
   \<and> take 16 (drop 48 shift64_record) = take 16 (sha256 toy_prims (take 48 shift64_record))
   \<and> unat (shift64_record ! 7) = 64
   \<and> (2::nat) ^ unat (shift64_record ! 7) mod 2 ^ 64 = 0
   \<and> Verify toy_prims shift64_record [1, 2, 3]
       = (Some (Rc 3), [([1, 2, 3], replicate 32 7, 1, 8, 1, 64)])"
  using shift64_checksum by (simp add: Verify_shift64)

text \<open>
  C9, amended: \<open>Verify\<close> validates no cost parameter. For every 96-byte record with a
  correct checksum it calls the derivation once, on the password, the salt of the record
  and the \<open>r\<close> and \<open>p\<close> of the record, whatever their values, with \<open>N = 1 << logN\<close>
  for the byte \<open>logN\<close> of the record, whatever its value: the count of the shift is taken
  modulo 64, so that \<open>N = 2 ^ (logN mod 64)\<close>. \<open>scryptdec_setup\<close>, on the same bytes as
  a header, returns 7 without a derivation when \<open>logN\<close> is outside 1..63 or
  \<open>r * p \<ge> 2 ^ 30\<close>.
\<close>

theorem Verify_validates_no_parameter:
  assumes "length kdf = 96"
    and "take 16 (drop 48 kdf) = take 16 (sha256 P (take 48 kdf))"
  shows "snd (Verify P kdf passwd)
         = [(passwd, take 32 (drop 16 kdf), 2 ^ (unat (kdf ! 7) mod 64),
             be32dec (take 4 (drop 8 kdf)), be32dec (take 4 (drop 12 kdf)), 64)]
       \<and> (memtouse_host h maxmem maxmemfrac = Inr memlimit \<longrightarrow> cpuperf_host h = Inr opps \<longrightarrow>
            (unat (kdf ! 7) < 1 \<or> 63 < unat (kdf ! 7)
             \<or> 2 ^ 30 \<le> be32dec (take 4 (drop 8 kdf)) * be32dec (take 4 (drop 12 kdf))) \<longrightarrow>
            scryptdec_setup h P kdf passwd maxmem maxmemfrac maxtime = Inl (Rc 7, None, []))"
proof (intro conjI impI)
  from assms show "snd (Verify P kdf passwd)
      = [(passwd, take 32 (drop 16 kdf), 2 ^ (unat (kdf ! 7) mod 64),
          be32dec (take 4 (drop 8 kdf)), be32dec (take 4 (drop 12 kdf)), 64)]"
    by (simp add: Verify_derives)
next
  assume m: "memtouse_host h maxmem maxmemfrac = Inr memlimit" and c: "cpuperf_host h = Inr opps"
    and bad: "unat (kdf ! 7) < 1 \<or> 63 < unat (kdf ! 7)
         \<or> 2 ^ 30 \<le> be32dec (take 4 (drop 8 kdf)) * be32dec (take 4 (drop 12 kdf))"
  show "scryptdec_setup h P kdf passwd maxmem maxmemfrac maxtime = Inl (Rc 7, None, [])"
    by (rule scryptdec_setup_rejects [OF m c assms(2) bad])
qed

lemma unchecked_record_facts:
  "length unchecked_record = 96"
  "take 16 (drop 48 unchecked_record) = take 16 (sha256 toy_prims (take 48 unchecked_record))"
  "unat (unchecked_record ! 7) = 0"
  "take 32 (drop 16 unchecked_record) = replicate 32 7"
  "be32dec (take 4 (drop 8 unchecked_record)) = 4294967295"
  "be32dec (take 4 (drop 12 unchecked_record)) = 4294967295"
  by (simp_all add: unchecked_record_def sum_list_replicate be32dec_def)

lemma wide_record_facts:
  "length wide_record = 96"
  "take 16 (drop 48 wide_record) = take 16 (sha256 toy_prims (take 48 wide_record))"
  "unat (wide_record ! 7) = 74"
  "take 32 (drop 16 wide_record) = replicate 32 7"
  "be32dec (take 4 (drop 8 wide_record)) = 8"
  "be32dec (take 4 (drop 12 wide_record)) = 1"
  by (simp_all add: wide_record_def sum_list_replicate be32dec_def)

theorem Verify_validates_no_parameter_witness:
  "length unchecked_record = 96
   \<and> snd (Verify toy_prims unchecked_record [1, 2, 3])
       = [([1, 2, 3], replicate 32 7, 1, 4294967295, 4294967295, 64)]
   \<and> scryptdec_setup (win_host 8589934592 1000000 (replicate 32 7)) toy_prims
        unchecked_record [1, 2, 3] 0 (1 / 2) 300 = Inl (Rc 7, None, [])
   \<and> unat (wide_record ! 7) = 74
   \<and> snd (Verify toy_prims wide_record [1, 2, 3])
       = [([1, 2, 3], replicate 32 7, 1024, 8, 1, 64)]
   \<and> scryptdec_setup (win_host 8589934592 1000000 (replicate 32 7)) toy_prims
        wide_record [1, 2, 3] 0 (1 / 2) 300 = Inl (Rc 7, None, [])"
  using Verify_validates_no_parameter
    [of unchecked_record toy_prims "[1, 2, 3]" "win_host 8589934592 1000000 (replicate 32 7)"
       0 "1 / 2" 1048576 1000000 300]
    Verify_validates_no_parameter
    [of wide_record toy_prims "[1, 2, 3]" "win_host 8589934592 1000000 (replicate 32 7)"
       0 "1 / 2" 1048576 1000000 300]
  by (simp add: unchecked_record_facts wide_record_facts)






section \<open>Properties of the stream cipher\<close>

lemma length_crypto_aesctr_stream [simp]:
  "length (fst (crypto_aesctr_stream P AES xs)) = length xs"
  by (simp add: crypto_aesctr_stream_def)

lemma snd_crypto_aesctr_stream:
  "snd (crypto_aesctr_stream P AES xs) = AES\<lparr>aes_pos := aes_pos AES + length xs\<rparr>"
  by (simp add: crypto_aesctr_stream_def)

lemma map2_xor_twice:
  "length ks = length xs \<Longrightarrow> map2 (XOR) (map2 (XOR) xs ks) ks = xs"
  for xs :: bytes
proof (induction xs arbitrary: ks)
  case Nil
  then show ?case by simp
next
  case (Cons x xs)
  then obtain k ks' where ks: "ks = k # ks'" by (cases ks) auto
  have "(x XOR k) XOR k = x" by (simp add: xor.assoc)
  with Cons ks show ?case by simp
qed

text \<open>Applying the key stream twice from the same position gives the data back.\<close>

lemma crypto_aesctr_stream_twice:
  "fst (crypto_aesctr_stream P AES (fst (crypto_aesctr_stream P AES xs))) = xs"
  by (simp add: crypto_aesctr_stream_def map2_xor_twice)

text \<open>Streaming two pieces one after the other is streaming their concatenation.\<close>

lemma crypto_aesctr_stream_append:
  "fst (crypto_aesctr_stream P AES (xs @ ys))
   = fst (crypto_aesctr_stream P AES xs)
     @ fst (crypto_aesctr_stream P (snd (crypto_aesctr_stream P AES xs)) ys)"
proof -
  have "[aes_pos AES ..< aes_pos AES + (length xs + length ys)]
        = [aes_pos AES ..< aes_pos AES + length xs]
          @ [aes_pos AES + length xs ..< aes_pos AES + length xs + length ys]"
    using upt_add_eq_append [of "aes_pos AES" "aes_pos AES + length xs" "length ys"]
    by (simp add: add.assoc)
  then show ?thesis
    by (simp add: crypto_aesctr_stream_def zip_append)
qed

section \<open>Properties of the container header\<close>

lemma header_of_fields:
  assumes "prims_ok P" and "length salt = 32"
  shows "length (header_of P logN r p salt dk) = 96"
    and "take 6 (header_of P logN r p salt dk) = magic"
    and "header_of P logN r p salt dk ! 6 = 0"
    and "header_of P logN r p salt dk ! 7 = of_nat logN"
    and "take 4 (drop 8 (header_of P logN r p salt dk)) = be32enc r"
    and "take 4 (drop 12 (header_of P logN r p salt dk)) = be32enc p"
    and "take 32 (drop 16 (header_of P logN r p salt dk)) = salt"
    and "take 48 (header_of P logN r p salt dk)
         = magic @ [0] @ [of_nat logN] @ be32enc r @ be32enc p @ salt"
    and "take 16 (drop 48 (header_of P logN r p salt dk))
         = take 16 (sha256 P (magic @ [0] @ [of_nat logN] @ be32enc r @ be32enc p @ salt))"
    and "take 64 (header_of P logN r p salt dk)
         = magic @ [0] @ [of_nat logN] @ be32enc r @ be32enc p @ salt
           @ take 16 (sha256 P (magic @ [0] @ [of_nat logN] @ be32enc r @ be32enc p @ salt))"
    and "take 32 (drop 64 (header_of P logN r p salt dk))
         = take 32 (hmac_sha256 P (take 32 (drop 32 dk))
             (take 64 (header_of P logN r p salt dk)))"
proof -
  define h48 where "h48 = magic @ [0] @ [of_nat logN] @ be32enc r @ be32enc p @ salt"
  define c where "c = take 16 (sha256 P h48)"
  define sg where "sg = take 32 (hmac_sha256 P (take 32 (drop 32 dk)) (h48 @ c))"
  have len: "length magic = 6" "length salt = 32" "length c = 16" "length sg = 32"
    using assms by (simp_all add: c_def sg_def prims_ok_def)
  have eq: "header_of P logN r p salt dk
      = magic @ [0] @ [of_nat logN] @ be32enc r @ be32enc p @ salt @ c @ sg"
    by (simp add: header_of_def Let_def h48_def c_def sg_def)
  note f = record_fields [OF len eq]
  show "length (header_of P logN r p salt dk) = 96"
    and "take 6 (header_of P logN r p salt dk) = magic"
    and "header_of P logN r p salt dk ! 6 = 0"
    and "header_of P logN r p salt dk ! 7 = of_nat logN"
    and "take 4 (drop 8 (header_of P logN r p salt dk)) = be32enc r"
    and "take 4 (drop 12 (header_of P logN r p salt dk)) = be32enc p"
    and "take 32 (drop 16 (header_of P logN r p salt dk)) = salt"
    and "take 48 (header_of P logN r p salt dk)
         = magic @ [0] @ [of_nat logN] @ be32enc r @ be32enc p @ salt"
    by (rule f)+
  show "take 16 (drop 48 (header_of P logN r p salt dk))
         = take 16 (sha256 P (magic @ [0] @ [of_nat logN] @ be32enc r @ be32enc p @ salt))"
    using f(9) by (simp add: c_def h48_def)
  show t64: "take 64 (header_of P logN r p salt dk)
         = magic @ [0] @ [of_nat logN] @ be32enc r @ be32enc p @ salt
           @ take 16 (sha256 P (magic @ [0] @ [of_nat logN] @ be32enc r @ be32enc p @ salt))"
    using f(10) by (simp add: c_def h48_def)
  show "take 32 (drop 64 (header_of P logN r p salt dk))
         = take 32 (hmac_sha256 P (take 32 (drop 32 dk))
             (take 64 (header_of P logN r p salt dk)))"
    unfolding t64 using f(11) by (simp add: sg_def c_def h48_def)
qed

lemma scryptenc_setup_Inr:
  assumes "scryptenc_setup h P passwd maxmem maxmemfrac maxtime = Inr (header, dk)"
    and "prims_ok P"
  shows "\<exists>logN r p salt. pickparams h maxmem maxmemfrac maxtime = Inr (logN, r, p)
    \<and> entropy_host h = Some salt
    \<and> crypto_scrypt P passwd salt (2 ^ logN) r p 64 = Inr dk
    \<and> (length salt = 32 \<longrightarrow> header = header_of P logN r p salt dk)"
proof -
  from assms(1) obtain logN r p where pick: "pickparams h maxmem maxmemfrac maxtime = Inr (logN, r, p)"
    by (auto simp: scryptenc_setup_def split: sum.splits)
  from assms(1) pick obtain salt where salt: "entropy_host h = Some salt"
    by (auto simp: scryptenc_setup_def Let_def split: option.splits)
  from assms(1) pick salt have dk: "crypto_scrypt P passwd salt (2 ^ logN) r p 64 = Inr dk"
    by (auto simp: scryptenc_setup_def Let_def split: sum.splits)
  have "header = header_of P logN r p salt dk" if "length salt = 32"
    using assms pick salt dk that
    by (simp add: scryptenc_setup_def Let_def header_of_def prims_ok_def)
  with pick salt dk show ?thesis by blast
qed

section \<open>Properties of the buffer entry points\<close>

lemma unat_of_nat_byte: "n < 256 \<Longrightarrow> unat (of_nat n :: byte) = n"
  by (simp add: unat_of_nat)

text \<open>\<open>scryptdec_setup\<close> accepts the header of \<open>scryptenc_setup\<close> when \<open>checkparams\<close> passes
  its parameters, and derives the same bytes.\<close>

lemma scryptdec_setup_header_of:
  assumes ok: "prims_ok P" and salt: "length salt = 32"
    and par: "logN < 256" "r < 2 ^ 32" "p < 2 ^ 32"
    and chk: "checkparams h maxmem maxmemfrac maxtime logN r p = None"
    and dk: "crypto_scrypt P passwd salt (2 ^ logN) r p 64 = Inr dk"
  shows "scryptdec_setup h P (header_of P logN r p salt dk) passwd maxmem maxmemfrac maxtime
         = Inr (dk, [(passwd, salt, 2 ^ logN, r, p, 64)])"
proof -
  note f = header_of_fields [OF ok salt, of logN r p dk]
  have l: "unat (header_of P logN r p salt dk ! 7) = logN"
    using par(1) by (simp add: f(4) unat_of_nat_byte)
  have r: "be32dec (take 4 (drop 8 (header_of P logN r p salt dk))) = r"
    and p: "be32dec (take 4 (drop 12 (header_of P logN r p salt dk))) = p"
    using par(2,3) by (simp_all add: f be32dec_be32enc)
  show ?thesis
    unfolding scryptdec_setup_def Let_def l r p f(7) f(9) f(11)
    using chk dk by (simp add: f(8))
qed

text \<open>What \<open>scryptdec_buf\<close> does on an input of at least 128 bytes with the magic and the
  version 0, once \<open>scryptdec_setup\<close> has returned 0 and the cipher is set up.\<close>

lemma scryptdec_buf_keyed:
  assumes "128 \<le> length inbuf" and "take 6 inbuf = magic" and "inbuf ! 6 = 0"
    and "scryptdec_setup h P (take 96 inbuf) passwd maxmem maxmemfrac maxtime = Inr (dk, calls)"
    and "aes_key_host h" and "aesctr_host h"
    and "length inbuf - 128 \<le> length outbuf"
  shows "scryptdec_buf h P inbuf outbuf passwd maxmem maxmemfrac maxtime
         = \<lparr>status =
              (if take 32 (hmac_sha256 P (take 32 (drop 32 dk)) (take (length inbuf - 32) inbuf))
                  \<noteq> take 32 (drop (length inbuf - 32) inbuf)
               then Some (Rc 7) else None),
            out = fst (crypto_aesctr_stream P (crypto_aesctr_init (take 32 dk) 0)
                      (take (length inbuf - 128) (drop 96 inbuf)))
                  @ drop (length inbuf - 128) outbuf,
            dk_left =
              (if take 32 (hmac_sha256 P (take 32 (drop 32 dk)) (take (length inbuf - 32) inbuf))
                  \<noteq> take 32 (drop (length inbuf - 32) inbuf)
               then Some dk else Some (replicate 64 0)),
            outlen = Some (length inbuf - 128),
            derivations = calls\<rparr>"
  using assms by (simp add: scryptdec_buf_def Let_def split_beta)

text \<open>What \<open>scryptenc_buf\<close> writes when it returns 0.\<close>

lemma scryptenc_buf_done:
  assumes "scryptenc_setup h P passwd maxmem maxmemfrac maxtime = Inr (header, dk)"
    and "length header = 96" and "prims_ok P"
    and "aes_key_host h" and "aesctr_host h"
    and "length outbuf = length inbuf + 128"
  shows "scryptenc_buf h P inbuf outbuf passwd maxmem maxmemfrac maxtime
         = \<lparr>status = None,
            out = header
                  @ fst (crypto_aesctr_stream P (crypto_aesctr_init (take 32 dk) 0) inbuf)
                  @ take 32 (hmac_sha256 P (take 32 (drop 32 dk))
                      (header @ fst (crypto_aesctr_stream P (crypto_aesctr_init (take 32 dk) 0) inbuf))),
            dk_left = Some (replicate 64 0)\<rparr>"
  using assms by (simp add: scryptenc_buf_def Let_def split_beta prims_ok_def)

lemma scryptenc_buf_status_None:
  assumes "status (scryptenc_buf h P inbuf outbuf passwd maxmem maxmemfrac maxtime) = None"
  obtains header dk where "scryptenc_setup h P passwd maxmem maxmemfrac maxtime = Inr (header, dk)"
    and "aes_key_host h" and "aesctr_host h"
proof (cases "scryptenc_setup h P passwd maxmem maxmemfrac maxtime")
  case (Inl rc)
  with assms show ?thesis by (simp add: scryptenc_buf_def)
next
  case (Inr hd)
  obtain header dk where hd: "hd = (header, dk)" by (cases hd)
  from assms Inr hd have "aes_key_host h \<and> aesctr_host h"
    by (auto simp: scryptenc_buf_def Let_def split: if_splits)
  with Inr hd show ?thesis using that by simp
qed

text \<open>The triple that \<open>pickparams\<close> chose from one pair of budgets passes \<open>checkparams\<close>
  under every pair of budgets that are at least as large.\<close>

lemma checkparams_of_pickparams_limits:
  assumes pick: "pickparams_limits memlimit opps maxtime = (logN, r, p)"
    and mem: "1048576 \<le> memlimit" and ops: "32768 \<le> opps * maxtime"
    and mem': "memtouse_host h' maxmem' maxmemfrac' = Inr memlimit'" "memlimit \<le> memlimit'"
    and cpu': "cpuperf_host h' = Inr opps'" "opps * maxtime \<le> opps' * maxtime'"
  shows "checkparams h' maxmem' maxmemfrac' maxtime' logN r p = None"
proof -
  have "4096 \<le> memlimit" using mem by simp
  from pickparams_limits_ok [OF this ops pick]
  have ok: "1 \<le> logN" "logN \<le> 63" "r = 8" "1 \<le> p" "r * p < 2 ^ 30"
    "128 \<le> (memlimit div 2 ^ logN) div r"
    "4 \<le> (opps * maxtime / real (2 ^ logN)) / real (r * p)"
    by blast+
  have "(memlimit div 2 ^ logN) div r \<le> (memlimit' div 2 ^ logN) div r"
    using mem'(2) by (intro div_le_mono)
  with ok(6) have m: "128 \<le> (memlimit' div 2 ^ logN) div r" by simp
  have "(opps * maxtime / real (2 ^ logN)) / real (r * p)
      \<le> (opps' * maxtime' / real (2 ^ logN)) / real (r * p)"
    using cpu'(2) by (intro divide_right_mono) simp_all
  with ok(7) have t: "4 \<le> (opps' * maxtime' / real (2 ^ logN)) / real (r * p)" by simp
  have "(r * p) mod 2 ^ 32 = r * p" using ok(5) by simp
  moreover have "r * p \<noteq> 0" using ok(3,4) by simp
  ultimately show ?thesis
    using mem'(1) cpu'(1) ok(1-5) m t unfolding checkparams_def
    by (simp add: Let_def not_less del: of_nat_mult of_nat_power)
qed

text \<open>Decryption inverts encryption when the budgets of the decrypting call are at least
  those of the encrypting call.\<close>

lemma scryptdec_buf_of_scryptenc_buf:
  assumes ok: "prims_ok P"
    and mem: "memtouse_host h maxmem maxmemfrac = Inr memlimit" "1048576 \<le> memlimit"
    and cpu: "cpuperf_host h = Inr opps" "32768 \<le> opps * maxtime"
    and salt: "entropy_host h = Some salt" "length salt = 32"
    and mem': "memtouse_host h' maxmem' maxmemfrac' = Inr memlimit'" "memlimit \<le> memlimit'"
    and cpu': "cpuperf_host h' = Inr opps'" "opps * maxtime \<le> opps' * maxtime'"
    and aes': "aes_key_host h'" "aesctr_host h'"
    and bufs: "length outbuf = length inbuf + 128" "length inbuf \<le> length outbuf'"
    and enc: "status (scryptenc_buf h P inbuf outbuf passwd maxmem maxmemfrac maxtime) = None"
  shows "scryptdec_buf h' P (out (scryptenc_buf h P inbuf outbuf passwd maxmem maxmemfrac maxtime))
           outbuf' passwd maxmem' maxmemfrac' maxtime'
         = \<lparr>status = None, out = inbuf @ drop (length inbuf) outbuf',
            dk_left = Some (replicate 64 0), outlen = Some (length inbuf),
            derivations = derivations (scryptdec_buf h' P
              (out (scryptenc_buf h P inbuf outbuf passwd maxmem maxmemfrac maxtime))
              outbuf' passwd maxmem' maxmemfrac' maxtime')\<rparr>"
proof -
  from enc obtain header dk where
    esetup: "scryptenc_setup h P passwd maxmem maxmemfrac maxtime = Inr (header, dk)"
    and aes: "aes_key_host h" "aesctr_host h"
    by (rule scryptenc_buf_status_None)
  from esetup ok obtain logN r p salt' where
    pick: "pickparams h maxmem maxmemfrac maxtime = Inr (logN, r, p)"
    and salt': "entropy_host h = Some salt'"
    and dk: "crypto_scrypt P passwd salt' (2 ^ logN) r p 64 = Inr dk"
    and hdr: "length salt' = 32 \<longrightarrow> header = header_of P logN r p salt' dk"
    using scryptenc_setup_Inr by blast
  from salt salt' have [simp]: "salt' = salt" by simp
  have header: "header = header_of P logN r p salt dk" using hdr salt(2) by simp
  have pl: "pickparams_limits memlimit opps maxtime = (logN, r, p)"
    using pick mem(1) cpu(1) by (simp add: pickparams_def)
  have "4096 \<le> memlimit" using mem(2) by simp
  from pickparams_limits_ok [OF this cpu(2) pl]
  have par: "logN \<le> 63" "r = 8" "r * p < 2 ^ 30" by blast+
  then have p: "p < 2 ^ 32" by simp
  have chk: "checkparams h' maxmem' maxmemfrac' maxtime' logN r p = None"
    by (rule checkparams_of_pickparams_limits [OF pl mem(2) cpu(2) mem' cpu'])
  have dsetup: "scryptdec_setup h' P header passwd maxmem' maxmemfrac' maxtime'
      = Inr (dk, [(passwd, salt, 2 ^ logN, r, p, 64)])"
    unfolding header using par(1,2) p dk
    by (intro scryptdec_setup_header_of [OF ok salt(2) _ _ _ chk]) simp_all
  note f = header_of_fields [OF ok salt(2), of logN r p dk, folded header]
  define ct where "ct = fst (crypto_aesctr_stream P (crypto_aesctr_init (take 32 dk) 0) inbuf)"
  define tag where "tag = take 32 (hmac_sha256 P (take 32 (drop 32 dk)) (header @ ct))"
  have lens: "length ct = length inbuf" "length tag = 32"
    using ok by (simp_all add: ct_def tag_def prims_ok_def)
  define cont where "cont = header @ ct @ tag"
  have out: "out (scryptenc_buf h P inbuf outbuf passwd maxmem maxmemfrac maxtime) = cont"
    using scryptenc_buf_done [OF esetup f(1) ok aes bufs(1)]
    by (simp add: ct_def tag_def cont_def)
  have c: "128 \<le> length cont" "take 6 cont = magic" "cont ! 6 = 0" "take 96 cont = header"
    "length cont - 128 = length inbuf"
    "take (length cont - 32) cont = header @ ct"
    "drop (length cont - 32) cont = tag"
    "take (length inbuf) (drop 96 cont) = ct"
    using f(1,2,3) lens by (simp_all add: cont_def nth_append)
  have dsetup': "scryptdec_setup h' P (take 96 cont) passwd maxmem' maxmemfrac' maxtime'
      = Inr (dk, [(passwd, salt, 2 ^ logN, r, p, 64)])"
    using dsetup c(4) by simp
  have room: "length cont - 128 \<le> length outbuf'"
    using c(5) bufs(2) by simp
  have plain: "fst (crypto_aesctr_stream P (crypto_aesctr_init (take 32 dk) 0) ct) = inbuf"
    unfolding ct_def by (rule crypto_aesctr_stream_twice)
  have tagged: "take 32 (hmac_sha256 P (take 32 (drop 32 dk)) (header @ ct)) = take 32 tag"
    by (simp add: tag_def)
  show ?thesis
    unfolding out scryptdec_buf_keyed [OF c(1,2,3) dsetup' aes' room]
    by (simp add: c(5,6,7,8) plain tagged)
qed

section \<open>Concrete runs of the buffer entry points\<close>

lemma example_host_fields [simp]:
  "memtouse_host example_host maxmem (1 / 2) = Inr 1048576"
  "cpuperf_host example_host = Inr 1000000"
  "entropy_host example_host = Some (replicate 32 7)"
  "aes_key_host example_host" "aesctr_host example_host"
  by (simp_all add: example_host_def)

lemma pickparams_limits_300: "pickparams_limits 1048576 1000000 300 = (10, 8, 9155)"
  by (simp add: pickparams_limits_def Let_def pick_logN_1024)

lemma scryptenc_setup_small:
  "scryptenc_setup example_host toy_prims [1, 2, 3] 0 (1 / 2) (1 / 1000)
   = Inr (example_record, replicate 64 239)"
  by (simp add: scryptenc_setup_def pickparams_def pickparams_limits_1000 Let_def magic_def
      be32enc_def sum_list_replicate example_record_def)

lemma scryptenc_buf_small:
  "scryptenc_buf example_host toy_prims [10, 20, 30] (replicate 131 0) [1, 2, 3] 0 (1 / 2) (1 / 1000)
   = \<lparr>status = None, out = small_container, dk_left = Some (replicate 64 0)\<rparr>"
  by (simp add: scryptenc_buf_def scryptenc_setup_small Let_def crypto_aesctr_stream_def
      crypto_aesctr_init_def sum_list_replicate upt_rec example_record_def small_container_def)

lemma scryptdec_setup_small:
  "scryptdec_setup example_host toy_prims (take 96 small_container) [1, 2, 3] 0 (1 / 2) (1 / 1000)
   = Inl (Rc 10, None, [])"
  by (simp add: scryptdec_setup_def checkparams_def Let_def be32dec_def sum_list_replicate
      small_container_def example_record_def)

lemma scryptdec_buf_small:
  "scryptdec_buf example_host toy_prims small_container (replicate 3 0) [1, 2, 3] 0 (1 / 2) (1 / 1000)
   = \<lparr>status = Some (Rc 10), out = replicate 3 0, dk_left = None, outlen = None,
      derivations = []\<rparr>"
  by (simp add: scryptdec_buf_def scryptdec_setup_small Let_def)
    (simp add: small_container_def example_record_def magic_def)

lemma scryptenc_setup_example:
  "scryptenc_setup example_host toy_prims [1, 2, 3] 0 (1 / 2) 300
   = Inr (example_header, replicate 64 177)"
  by (simp add: scryptenc_setup_def pickparams_def pickparams_limits_300 Let_def magic_def
      be32enc_def sum_list_replicate example_header_def)

lemma scryptenc_buf_example:
  "scryptenc_buf example_host toy_prims [10, 20, 30] (replicate 131 0) [1, 2, 3] 0 (1 / 2) 300
   = \<lparr>status = None, out = example_container, dk_left = Some (replicate 64 0)\<rparr>"
  by (simp add: scryptenc_buf_def scryptenc_setup_example Let_def crypto_aesctr_stream_def
      crypto_aesctr_init_def sum_list_replicate upt_rec example_header_def example_container_def)

lemma scryptdec_setup_example:
  "scryptdec_setup example_host toy_prims example_header [1, 2, 3] 0 (1 / 2) 300
   = Inr (replicate 64 177, [([1, 2, 3], replicate 32 7, 1024, 8, 9155, 64)])"
  by (simp add: scryptdec_setup_def checkparams_def Let_def be32dec_def sum_list_replicate
      example_header_def)

lemma tampered_container_facts:
  "length tampered_container = 131" "take 6 tampered_container = magic"
  "tampered_container ! 6 = 0" "take 96 tampered_container = example_header"
  by (simp_all add: tampered_container_def example_header_def magic_def)

lemma tampered_tag: "replicate 32 x \<noteq> replicate 31 177 @ [176]"
  for x :: byte
proof
  assume "replicate 32 x = replicate 31 177 @ [176]"
  then have "last (replicate 32 x) = last (replicate 31 177 @ [176::byte])"
    and "hd (replicate 32 x) = hd (replicate 31 177 @ [176::byte])"
    by simp_all
  then have "x = 176" and "x = 177" by (simp_all add: hd_append)
  then show False by simp
qed

lemma scryptdec_buf_tampered:
  "scryptdec_buf example_host toy_prims tampered_container (replicate 3 0) [1, 2, 3] 0 (1 / 2) 300
   = \<lparr>status = Some (Rc 7), out = [10, 20, 30], dk_left = Some (replicate 64 177),
      outlen = Some 3,
      derivations = [([1, 2, 3], replicate 32 7, 1024, 8, 9155, 64)]\<rparr>"
  by (simp add: scryptdec_buf_def tampered_container_facts scryptdec_setup_example Let_def)
    (simp add: tampered_container_def example_header_def crypto_aesctr_stream_def
      crypto_aesctr_init_def sum_list_replicate upt_rec tampered_tag)

lemma example_container_facts:
  "length example_container = 131" "take 6 example_container = magic"
  "example_container ! 6 = 0" "take 96 example_container = example_header"
  by (simp_all add: example_container_def example_header_def magic_def)

lemma scryptdec_buf_example:
  "scryptdec_buf example_host toy_prims example_container (replicate 3 0) [1, 2, 3] 0 (1 / 2) 300
   = \<lparr>status = None, out = [10, 20, 30], dk_left = Some (replicate 64 0),
      outlen = Some 3,
      derivations = [([1, 2, 3], replicate 32 7, 1024, 8, 9155, 64)]\<rparr>"
  by (simp add: scryptdec_buf_def example_container_facts scryptdec_setup_example Let_def)
    (simp add: example_container_def example_header_def crypto_aesctr_stream_def
      crypto_aesctr_init_def sum_list_replicate upt_rec)

text \<open>The example run of \<open>scryptenc_buf\<close> on a host where \<open>crypto_aes_key_expand\<close> fails.\<close>

lemma scryptenc_setup_nokey:
  "scryptenc_setup (example_host\<lparr>aes_key_host := False\<rparr>) toy_prims [1, 2, 3] 0 (1 / 2) 300
   = Inr (example_header, replicate 64 177)"
  using scryptenc_setup_example
  by (simp add: scryptenc_setup_def pickparams_def)

lemma scryptenc_buf_nokey:
  "scryptenc_buf (example_host\<lparr>aes_key_host := False\<rparr>) toy_prims [10, 20, 30]
     (replicate 131 0) [1, 2, 3] 0 (1 / 2) 300
   = \<lparr>status = Some (Rc 5), out = example_header @ replicate 35 0,
      dk_left = Some (replicate 64 177)\<rparr>"
  by (simp add: scryptenc_buf_def scryptenc_setup_nokey Let_def) (simp add: example_header_def)

text \<open>The example container on a host that measures 999970 operations per second where
  the encrypting call measured 1000000: \<open>checkparams\<close> finds
  \<open>299991000 / 1024 / 73240 < 4\<close>.\<close>

lemma scryptdec_buf_slower:
  "scryptdec_buf (win_host 8589934592 999970 (replicate 32 7)) toy_prims example_container
     (replicate 3 0) [1, 2, 3] 0 (1 / 2) 300
   = \<lparr>status = Some (Rc 10), out = replicate 3 0, dk_left = None, outlen = None,
      derivations = []\<rparr>"
proof -
  have "scryptdec_setup (win_host 8589934592 999970 (replicate 32 7)) toy_prims example_header
      [1, 2, 3] 0 (1 / 2) 300 = Inl (Rc 10, None, [])"
    by (simp add: scryptdec_setup_def checkparams_def Let_def be32dec_def sum_list_replicate
        example_header_def)
  then show ?thesis
    by (simp add: scryptdec_buf_def example_container_facts Let_def)
qed

section \<open>Claims on the buffer entry points\<close>

text \<open>
  C1, as stated: for every plaintext, password and cost policy, \<open>scryptdec_buf\<close> on the
  output of \<open>scryptenc_buf\<close> would return 0. With 1000000 operations per second and
  \<open>maxtime\<close> a millisecond, \<open>scryptenc_buf\<close> returns 0 (its \<open>pickparams\<close> raises the budget of
  operations to 32768) and \<open>scryptdec_buf\<close>, on its output, with the same password and the
  same policy on a host that measures the same, returns 10: its \<open>checkparams\<close> finds that
  decrypting would take too long.
\<close>

theorem roundtrip_counterexample:
  "status (scryptenc_buf example_host toy_prims [10, 20, 30] (replicate 131 0) [1, 2, 3]
       0 (1 / 2) (1 / 1000)) = None
   \<and> status (scryptdec_buf example_host toy_prims
       (out (scryptenc_buf example_host toy_prims [10, 20, 30] (replicate 131 0) [1, 2, 3]
          0 (1 / 2) (1 / 1000)))
       (replicate 3 0) [1, 2, 3] 0 (1 / 2) (1 / 1000)) = Some (Rc 10)"
  by (simp add: scryptenc_buf_small scryptdec_buf_small)

text \<open>
  C1, amended. Each call measures its host: \<open>h\<close> is what the encrypting call finds,
  \<open>h'\<close> what the decrypting call finds, each with its own limits. When the encrypting
  call gets at least 1 MiB from \<open>memtouse\<close>, a product of measured operations per second
  and \<open>maxtime\<close> of at least 32768 and the 32 bytes of salt, and \<open>scryptenc_buf\<close> returns
  0; and the decrypting call gets from \<open>memtouse\<close> at least the memory, and as the
  product of its measurement and its \<open>maxtime\<close> at least the operations, of the encrypting
  call, and its cipher objects are allocated: then \<open>scryptdec_buf\<close> on the
  \<open>inbuflen + 128\<close> bytes written, with the same password, returns 0, sets \<open>*outlen\<close> to
  the length of the plaintext and writes the plaintext. The primitives are any
  deterministic functions that fill their output buffers. (With a lower measurement the
  decrypting call can return 10, see \<open>scryptdec_buf_slower\<close>.)
\<close>

theorem scryptdec_buf_inverts_scryptenc_buf:
  assumes "prims_ok P"
    and "memtouse_host h maxmem maxmemfrac = Inr memlimit" and "1048576 \<le> memlimit"
    and "cpuperf_host h = Inr opps" and "32768 \<le> opps * maxtime"
    and "entropy_host h = Some salt" and "length salt = 32"
    and "memtouse_host h' maxmem' maxmemfrac' = Inr memlimit'" and "memlimit \<le> memlimit'"
    and "cpuperf_host h' = Inr opps'" and "opps * maxtime \<le> opps' * maxtime'"
    and "aes_key_host h'" and "aesctr_host h'"
    and "length outbuf = length inbuf + 128" and "length inbuf \<le> length outbuf'"
    and "status (scryptenc_buf h P inbuf outbuf passwd maxmem maxmemfrac maxtime) = None"
  shows "status (scryptdec_buf h' P
             (out (scryptenc_buf h P inbuf outbuf passwd maxmem maxmemfrac maxtime))
             outbuf' passwd maxmem' maxmemfrac' maxtime') = None
       \<and> outlen (scryptdec_buf h' P
             (out (scryptenc_buf h P inbuf outbuf passwd maxmem maxmemfrac maxtime))
             outbuf' passwd maxmem' maxmemfrac' maxtime') = Some (length inbuf)
       \<and> take (length inbuf) (out (scryptdec_buf h' P
             (out (scryptenc_buf h P inbuf outbuf passwd maxmem maxmemfrac maxtime))
             outbuf' passwd maxmem' maxmemfrac' maxtime')) = inbuf"
proof -
  note eq = scryptdec_buf_of_scryptenc_buf [OF assms]
  show ?thesis by (subst eq, simp)+
qed

theorem scryptdec_buf_inverts_scryptenc_buf_witness:
  "scryptenc_buf example_host toy_prims [10, 20, 30] (replicate 131 0) [1, 2, 3] 0 (1 / 2) 300
     = \<lparr>status = None, out = example_container, dk_left = Some (replicate 64 0)\<rparr>
   \<and> status (scryptdec_buf (win_host 4294967296 1000100 (replicate 32 9)) toy_prims
       example_container (replicate 3 0) [1, 2, 3] 0 (1 / 2) 300) = None
   \<and> outlen (scryptdec_buf (win_host 4294967296 1000100 (replicate 32 9)) toy_prims
       example_container (replicate 3 0) [1, 2, 3] 0 (1 / 2) 300)
       = Some (length [10, 20, 30 :: byte])
   \<and> take (length [10, 20, 30 :: byte])
        (out (scryptdec_buf (win_host 4294967296 1000100 (replicate 32 9)) toy_prims
           example_container (replicate 3 0) [1, 2, 3] 0 (1 / 2) 300)) = [10, 20, 30]"
  using scryptdec_buf_inverts_scryptenc_buf
    [of toy_prims example_host 0 "1 / 2" 1048576 1000000 300 "replicate 32 7"
       "win_host 4294967296 1000100 (replicate 32 9)" 0 "1 / 2" 1048576 1000100 300
       "replicate 131 0" "[10, 20, 30]" "replicate 3 0" "[1, 2, 3]"]
  by (simp add: prims_ok_toy scryptenc_buf_example)

text \<open>
  C10. For every input of at least 128 bytes that passes the magic and version checks and
  on which \<open>scryptdec_setup\<close> returns 0 (the header checksum and the header signature
  verify), with the cipher set up and room in \<open>outbuf\<close>: when the trailing 32 bytes are
  not the tag of what precedes them, \<open>scryptdec_buf\<close> returns 7 with \<open>*outlen\<close> set to
  \<open>inbuflen - 128\<close> and the decrypted payload in the first \<open>inbuflen - 128\<close> bytes of
  \<open>outbuf\<close>; the bytes of \<open>outbuf\<close> after them are as before the call.
\<close>

theorem scryptdec_buf_writes_before_authenticating:
  assumes "128 \<le> length inbuf" and "take 6 inbuf = magic" and "inbuf ! 6 = 0"
    and "scryptdec_setup h P (take 96 inbuf) passwd maxmem maxmemfrac maxtime = Inr (dk, calls)"
    and "aes_key_host h" and "aesctr_host h"
    and "length inbuf - 128 \<le> length outbuf"
    and "take 32 (hmac_sha256 P (take 32 (drop 32 dk)) (take (length inbuf - 32) inbuf))
         \<noteq> take 32 (drop (length inbuf - 32) inbuf)"
  shows "status (scryptdec_buf h P inbuf outbuf passwd maxmem maxmemfrac maxtime) = Some (Rc 7)
       \<and> outlen (scryptdec_buf h P inbuf outbuf passwd maxmem maxmemfrac maxtime)
           = Some (length inbuf - 128)
       \<and> take (length inbuf - 128)
            (out (scryptdec_buf h P inbuf outbuf passwd maxmem maxmemfrac maxtime))
           = fst (crypto_aesctr_stream P (crypto_aesctr_init (take 32 dk) 0)
                   (take (length inbuf - 128) (drop 96 inbuf)))
       \<and> drop (length inbuf - 128)
            (out (scryptdec_buf h P inbuf outbuf passwd maxmem maxmemfrac maxtime))
           = drop (length inbuf - 128) outbuf"
proof -
  note eq = scryptdec_buf_keyed [OF assms(1-7)]
  have len: "length (fst (crypto_aesctr_stream P (crypto_aesctr_init (take 32 dk) 0)
      (take (length inbuf - 128) (drop 96 inbuf)))) = length inbuf - 128"
    using assms(1) by simp
  show ?thesis
    unfolding eq using assms(8) len by simp
qed

theorem scryptdec_buf_writes_before_authenticating_witness:
  "status (scryptdec_buf example_host toy_prims tampered_container (replicate 3 0) [1, 2, 3]
       0 (1 / 2) 300) = Some (Rc 7)
   \<and> outlen (scryptdec_buf example_host toy_prims tampered_container (replicate 3 0) [1, 2, 3]
       0 (1 / 2) 300) = Some 3
   \<and> take 3 (out (scryptdec_buf example_host toy_prims tampered_container (replicate 3 0)
       [1, 2, 3] 0 (1 / 2) 300)) = [10, 20, 30]"
proof -
  have tag: "take 32 (hmac_sha256 toy_prims (take 32 (drop 32 (replicate 64 177)))
        (take (length tampered_container - 32) tampered_container))
      \<noteq> take 32 (drop (length tampered_container - 32) tampered_container)"
    by (simp add: tampered_container_def example_header_def sum_list_replicate tampered_tag)
  have plain: "fst (crypto_aesctr_stream toy_prims (crypto_aesctr_init (replicate 32 177) 0)
        (take 3 (drop 96 tampered_container))) = [10, 20, 30]"
    by (simp add: tampered_container_def example_header_def crypto_aesctr_stream_def
        crypto_aesctr_init_def sum_list_replicate upt_rec)
  from scryptdec_buf_writes_before_authenticating
    [of tampered_container example_host toy_prims "[1, 2, 3]" 0 "1 / 2" 300
       "replicate 64 177" "[([1, 2, 3], replicate 32 7, 1024, 8, 9155, 64)]" "replicate 3 0",
     OF _ _ _ _ _ _ _ tag]
  show ?thesis
    by (simp add: tampered_container_facts scryptdec_setup_example plain)
qed

section \<open>Properties of the stream entry points\<close>

text \<open>A byte-wise read of a stream that does not fail delivers a prefix of the data; the
  prefix is not empty when data is left and bytes are asked for.\<close>

lemma fread_bytes_prefix:
  assumes "1 \<le> n"
  obtains k where "1 \<le> k" and "fread_bytes n f
      = (take k (in_data f),
         f\<lparr>in_data := drop k (in_data f), in_short := tl (in_short f),
           in_error := in_error f \<or> (in_fails f \<and> length (in_data f) < k)\<rparr>)"
proof (cases "in_short f")
  case Nil
  then have "fread_bytes n f
      = (take n (in_data f),
         f\<lparr>in_data := drop n (in_data f), in_short := tl (in_short f),
           in_error := in_error f \<or> (in_fails f \<and> length (in_data f) < n)\<rparr>)"
    by (simp add: fread_bytes_def)
  with assms show ?thesis by (rule that)
next
  case (Cons c cs)
  then have "fread_bytes n f
      = (take (min n (Suc c)) (in_data f),
         f\<lparr>in_data := drop (min n (Suc c)) (in_data f), in_short := tl (in_short f),
           in_error := in_error f \<or> (in_fails f \<and> length (in_data f) < min n (Suc c))\<rparr>)"
    by (simp add: fread_bytes_def Let_def)
  moreover have "1 \<le> min n (Suc c)" using assms by simp
  ultimately show ?thesis using that by blast
qed

lemma HMAC_SHA256_Update_twice:
  "HMAC_SHA256_Update (HMAC_SHA256_Update ctx xs) ys = HMAC_SHA256_Update ctx (xs @ ys)"
  by (simp add: HMAC_SHA256_Update_def)

lemma HMAC_SHA256_Update_Nil [simp]: "HMAC_SHA256_Update ctx [] = ctx"
  by (simp add: HMAC_SHA256_Update_def)

lemma crypto_aesctr_stream_Nil [simp]: "crypto_aesctr_stream P AES [] = ([], AES)"
  by (simp add: crypto_aesctr_stream_def)

lemma snd_crypto_aesctr_stream_append:
  "snd (crypto_aesctr_stream P (snd (crypto_aesctr_stream P AES xs)) ys)
   = snd (crypto_aesctr_stream P AES (xs @ ys))"
  by (simp add: snd_crypto_aesctr_stream add.assoc)

text \<open>
  The loop of \<open>scryptenc_file\<close>, on a stream that does not fail and an output with room
  for the data: however the reads split the data, the loop ends by \<open>break\<close>, having
  written the data under the key stream and fed it to the running tag.
\<close>

lemma enc_loop_all:
  assumes "\<not> in_fails infile" and "length (in_data infile) \<le> out_room outfile"
  shows "\<exists>infile'. in_error infile' = in_error infile
           \<and> enc_loop P infile outfile AES hctx
               = (True, infile',
                  outfile\<lparr>out_data := out_data outfile
                            @ fst (crypto_aesctr_stream P AES (in_data infile)),
                          out_room := out_room outfile - length (in_data infile)\<rparr>,
                  snd (crypto_aesctr_stream P AES (in_data infile)),
                  HMAC_SHA256_Update hctx (fst (crypto_aesctr_stream P AES (in_data infile))))"
  using assms
proof (induction "length (in_data infile)" arbitrary: infile outfile AES hctx rule: less_induct)
  case less
  have "1 \<le> ENCBLOCK" by (simp add: ENCBLOCK_def)
  then obtain k where k: "1 \<le> k" and rd: "fread_bytes ENCBLOCK infile
      = (take k (in_data infile),
         infile\<lparr>in_data := drop k (in_data infile), in_short := tl (in_short infile),
           in_error := in_error infile \<or> (in_fails infile \<and> length (in_data infile) < k)\<rparr>)"
    by (rule fread_bytes_prefix)
  define infile1 where "infile1 = infile\<lparr>in_data := drop k (in_data infile),
      in_short := tl (in_short infile),
      in_error := in_error infile \<or> (in_fails infile \<and> length (in_data infile) < k)\<rparr>"
  have i1: "in_data infile1 = drop k (in_data infile)" "in_error infile1 = in_error infile"
    "\<not> in_fails infile1"
    using less.prems(1) by (simp_all add: infile1_def)
  show ?case
  proof (cases "in_data infile = []")
    case True
    then show ?thesis
      using rd less.prems(1) by (subst enc_loop.simps) simp
  next
    case False
    define buf where "buf = take k (in_data infile)"
    have buf: "buf \<noteq> []" "length buf \<le> length (in_data infile)"
      "buf @ drop k (in_data infile) = in_data infile"
      using False k by (simp_all add: buf_def)
    define data where "data = fst (crypto_aesctr_stream P AES buf)"
    define AES1 where "AES1 = snd (crypto_aesctr_stream P AES buf)"
    define hctx1 where "hctx1 = HMAC_SHA256_Update hctx data"
    define outfile1 where "outfile1 = outfile\<lparr>out_data := out_data outfile @ data,
        out_room := out_room outfile - length buf\<rparr>"
    have ldata: "length data = length buf" by (simp add: data_def)
    have wr: "fwrite_bytes data outfile = (length buf, outfile1)"
      using buf(2) less.prems(2) by (simp add: fwrite_bytes_def outfile1_def ldata Let_def)
    have step: "enc_loop P infile outfile AES hctx = enc_loop P infile1 outfile1 AES1 hctx1"
      using buf(1) wr
      by (subst enc_loop.simps)
        (simp add: rd Let_def split_beta buf_def [symmetric] data_def [symmetric]
          AES1_def [symmetric] hctx1_def [symmetric] infile1_def [symmetric])
    have smaller: "length (in_data infile1) < length (in_data infile)"
      using False k by (simp add: i1)
    have room: "length (in_data infile1) \<le> out_room outfile1"
      using less.prems(2) buf by (simp add: i1 outfile1_def buf_def)
    from less.hyps [OF smaller i1(3) room, where AES = AES1 and hctx = hctx1]
    obtain infile' where err: "in_error infile' = in_error infile1"
      and rec: "enc_loop P infile1 outfile1 AES1 hctx1
        = (True, infile',
           outfile1\<lparr>out_data := out_data outfile1
                     @ fst (crypto_aesctr_stream P AES1 (in_data infile1)),
                   out_room := out_room outfile1 - length (in_data infile1)\<rparr>,
           snd (crypto_aesctr_stream P AES1 (in_data infile1)),
           HMAC_SHA256_Update hctx1 (fst (crypto_aesctr_stream P AES1 (in_data infile1))))"
      by blast
    have whole: "fst (crypto_aesctr_stream P AES (in_data infile))
        = data @ fst (crypto_aesctr_stream P AES1 (in_data infile1))"
      unfolding data_def AES1_def i1
      by (subst buf(3) [symmetric]) (rule crypto_aesctr_stream_append)
    have whole_snd: "snd (crypto_aesctr_stream P AES (in_data infile))
        = snd (crypto_aesctr_stream P AES1 (in_data infile1))"
      unfolding AES1_def i1
      by (subst buf(3) [symmetric]) (simp only: snd_crypto_aesctr_stream_append)
    have lsum: "length (in_data infile) = length buf + length (in_data infile1)"
      by (subst buf(3) [symmetric]) (simp add: i1 del: append_take_drop_id)
    have "enc_loop P infile outfile AES hctx
        = (True, infile',
           outfile\<lparr>out_data := out_data outfile
                     @ fst (crypto_aesctr_stream P AES (in_data infile)),
                   out_room := out_room outfile - length (in_data infile)\<rparr>,
           snd (crypto_aesctr_stream P AES (in_data infile)),
           HMAC_SHA256_Update hctx (fst (crypto_aesctr_stream P AES (in_data infile))))"
      unfolding step rec whole whole_snd lsum
      by (simp add: hctx1_def HMAC_SHA256_Update_twice outfile1_def)
    moreover have "in_error infile' = in_error infile" using err i1(2) by simp
    ultimately show ?thesis by blast
  qed
qed

text \<open>What \<open>scryptenc_file\<close> writes when the input does not fail and the output has room:
  what \<open>scryptenc_buf\<close> writes for the same data.\<close>

lemma scryptenc_file_done:
  assumes "scryptenc_setup h P passwd maxmem maxmemfrac maxtime = Inr (header, dk)"
    and "length header = 96" and "prims_ok P"
    and "aes_key_host h" and "aesctr_host h"
    and "\<not> in_fails infile" and "\<not> in_error infile"
    and "length (in_data infile) + 128 \<le> out_room outfile"
  shows "scryptenc_file h P infile outfile passwd maxmem maxmemfrac maxtime
         = \<lparr>status = None,
            out = out_data outfile @ header
                  @ fst (crypto_aesctr_stream P (crypto_aesctr_init (take 32 dk) 0) (in_data infile))
                  @ take 32 (hmac_sha256 P (take 32 (drop 32 dk))
                      (header @ fst (crypto_aesctr_stream P (crypto_aesctr_init (take 32 dk) 0)
                         (in_data infile)))),
            dk_left = Some (replicate 64 0)\<rparr>"
proof -
  define outfile1 where "outfile1 = outfile\<lparr>out_data := out_data outfile @ header,
      out_room := out_room outfile - 96\<rparr>"
  define hctx1 where
    "hctx1 = HMAC_SHA256_Update (HMAC_SHA256_Init (take 32 (drop 32 dk))) header"
  define AES where "AES = crypto_aesctr_init (take 32 dk) 0"
  define ct where "ct = fst (crypto_aesctr_stream P AES (in_data infile))"
  have t96: "take 96 header = header" using assms(2) by simp
  have w1: "fwrite_item header outfile = (1, outfile1)"
    using assms(2,8) by (simp add: fwrite_item_def fwrite_bytes_def Let_def outfile1_def)
  have room1: "length (in_data infile) \<le> out_room outfile1"
    using assms(8) by (simp add: outfile1_def)
  define outfile' where "outfile' = outfile1\<lparr>out_data := out_data outfile1 @ ct,
        out_room := out_room outfile1 - length (in_data infile)\<rparr>"
  define hctx' where "hctx' = HMAC_SHA256_Update hctx1 ct"
  from enc_loop_all [OF assms(6) room1, of P AES hctx1]
  obtain infile' where err: "in_error infile' = in_error infile"
    and loop: "enc_loop P infile outfile1 AES hctx1
      = (True, infile', outfile', snd (crypto_aesctr_stream P AES (in_data infile)), hctx')"
    unfolding outfile'_def hctx'_def ct_def by blast
  have fin: "HMAC_SHA256_Final P hctx' = hmac_sha256 P (take 32 (drop 32 dk)) (header @ ct)"
    by (simp add: hctx'_def hctx1_def HMAC_SHA256_Final_def HMAC_SHA256_Update_def
        HMAC_SHA256_Init_def)
  have l32: "length (take 32 (hmac_sha256 P (take 32 (drop 32 dk)) (header @ ct))) = 32"
    using assms(3) by (simp add: prims_ok_def)
  have w2: "fwrite_item (take 32 (hmac_sha256 P (take 32 (drop 32 dk)) (header @ ct))) outfile'
      = (1, outfile'\<lparr>out_data := out_data outfile'
            @ take 32 (hmac_sha256 P (take 32 (drop 32 dk)) (header @ ct)),
          out_room := out_room outfile' - 32\<rparr>)"
    using assms(8) l32
    by (simp add: fwrite_item_def fwrite_bytes_def Let_def outfile'_def outfile1_def)
  show ?thesis
    unfolding scryptenc_file_def
    using assms(1,2,4,5,7) err
    by (simp add: Let_def w1 loop hctx1_def [symmetric] AES_def [symmetric] ferror_def fin w2)
      (simp add: outfile'_def outfile1_def ct_def AES_def)
qed

text \<open>
  The loop of \<open>scryptdec_file\<close>, started with at most 32 bytes in its buffer, on a stream
  that does not fail and an output with room: however the reads split the data, the
  loop ends by \<open>break\<close>, having written all but the last 32 bytes of the buffer and the
  data under the key stream, fed them to the running tag and kept those last bytes.
\<close>

lemma dec_loop_all:
  assumes "\<not> in_fails infile" and "length buf \<le> 32"
    and "length buf + length (in_data infile) \<le> out_room outfile"
  shows "\<exists>infile' AES'. in_error infile' = in_error infile
           \<and> dec_loop P buf infile outfile AES hctx
               = (True, drop (length (buf @ in_data infile) - 32) (buf @ in_data infile),
                  infile',
                  outfile\<lparr>out_data := out_data outfile
                            @ fst (crypto_aesctr_stream P AES
                                (take (length (buf @ in_data infile) - 32)
                                   (buf @ in_data infile))),
                          out_room := out_room outfile
                            - (length (buf @ in_data infile) - 32)\<rparr>,
                  AES',
                  HMAC_SHA256_Update hctx
                    (take (length (buf @ in_data infile) - 32) (buf @ in_data infile)))"
  using assms
proof (induction "length (in_data infile)" arbitrary: buf infile outfile AES hctx rule: less_induct)
  case less
  have "1 \<le> ENCBLOCK + 32 - length buf" using less.prems(2) by (simp add: ENCBLOCK_def)
  then obtain k where k: "1 \<le> k" and rd: "fread_bytes (ENCBLOCK + 32 - length buf) infile
      = (take k (in_data infile),
         infile\<lparr>in_data := drop k (in_data infile), in_short := tl (in_short infile),
           in_error := in_error infile \<or> (in_fails infile \<and> length (in_data infile) < k)\<rparr>)"
    by (rule fread_bytes_prefix)
  define infile1 where "infile1 = infile\<lparr>in_data := drop k (in_data infile),
      in_short := tl (in_short infile),
      in_error := in_error infile \<or> (in_fails infile \<and> length (in_data infile) < k)\<rparr>"
  have i1: "in_data infile1 = drop k (in_data infile)" "in_error infile1 = in_error infile"
    "\<not> in_fails infile1"
    using less.prems(1) by (simp_all add: infile1_def)
  show ?case
  proof (cases "in_data infile = []")
    case True
    then show ?thesis
      using rd less.prems(1,2) by (subst dec_loop.simps) simp
  next
    case False
    define got where "got = take k (in_data infile)"
    have got: "got \<noteq> []" "got @ in_data infile1 = in_data infile"
      using False k by (simp_all add: got_def i1)
    have smaller: "length (in_data infile1) < length (in_data infile)"
      using False k by (simp add: i1)
    define all where "all = buf @ in_data infile"
    have all: "all = (buf @ got) @ in_data infile1" by (simp add: all_def got(2))
    show ?thesis
    proof (cases "length (buf @ got) \<le> 32")
      case True
      have step: "dec_loop P buf infile outfile AES hctx
          = dec_loop P (buf @ got) infile1 outfile AES hctx"
        using got(1) True
        by (subst dec_loop.simps)
          (simp add: rd Let_def split_beta got_def [symmetric] infile1_def [symmetric])
      have room: "length (buf @ got) + length (in_data infile1) \<le> out_room outfile"
        using less.prems(3) by (simp flip: got(2))
      from less.hyps [OF smaller i1(3) True room, where AES = AES and hctx = hctx]
      show ?thesis
        unfolding step by (simp add: i1(2) got(2))
    next
      case False
      define m where "m = length (buf @ got) - 32"
      define hctx1 where "hctx1 = HMAC_SHA256_Update hctx (take m (buf @ got))"
      define data where "data = fst (crypto_aesctr_stream P AES (take m (buf @ got)))"
      define AES1 where "AES1 = snd (crypto_aesctr_stream P AES (take m (buf @ got)))"
      define outfile1 where "outfile1 = outfile\<lparr>out_data := out_data outfile @ data,
          out_room := out_room outfile - m\<rparr>"
      have m: "0 < m" "m \<le> length (buf @ got)" "length (drop m (buf @ got)) = 32"
        using False by (simp_all add: m_def)
      have ldata: "length data = m" using m(2) by (simp add: data_def)
      have mroom: "m \<le> out_room outfile"
        using less.prems(3) m(2) by (simp flip: got(2))
      have wr: "fwrite_bytes data outfile = (m, outfile1)"
        using mroom by (simp add: fwrite_bytes_def outfile1_def ldata Let_def)
      have ne: "length got \<noteq> 0" using got(1) by simp
      have big: "\<not> length buf + length got \<le> 32" using False by simp
      have step: "dec_loop P buf infile outfile AES hctx
          = dec_loop P (drop m (buf @ got)) infile1 outfile1 AES1 hctx1"
        apply (subst dec_loop.simps)
        apply (simp only: rd Let_def prod.case got_def [symmetric] infile1_def [symmetric])
        apply (simp only: ne big if_False length_append [symmetric] m_def [symmetric]
            hctx1_def [symmetric])
        apply (simp only: split_beta data_def [symmetric] AES1_def [symmetric] wr
            fst_conv snd_conv less_irrefl if_False False)
        done
      have b32: "length (drop m (buf @ got)) \<le> 32" using m(3) by simp
      have room: "length (drop m (buf @ got)) + length (in_data infile1) \<le> out_room outfile1"
        using less.prems(3) m(2) unfolding outfile1_def by (simp flip: got(2))
      define rest where "rest = drop m (buf @ got) @ in_data infile1"
      define n where "n = length rest - 32"
      have lrest: "32 \<le> length rest" using m(3) by (simp add: rest_def)
      define pre where "pre = take m (buf @ got)"
      have lpre: "length pre = m" using m(2) by (simp add: pre_def)
      have all_rest: "all = pre @ rest"
        unfolding all rest_def pre_def
        by (simp only: append_assoc [symmetric] append_take_drop_id)
      have lall: "length all - 32 = m + n"
        using lrest by (simp add: all_rest n_def lpre)
      have tk: "take (length all - 32) all = pre @ take n rest"
        by (simp only: lall) (simp add: all_rest lpre)
      have dr: "drop (length all - 32) all = drop n rest"
        by (simp only: lall) (simp add: all_rest lpre)
      have hp: "hctx1 = HMAC_SHA256_Update hctx pre" by (simp add: hctx1_def pre_def)
      have whole: "fst (crypto_aesctr_stream P AES (pre @ take n rest))
          = data @ fst (crypto_aesctr_stream P AES1 (take n rest))"
        unfolding data_def AES1_def pre_def by (rule crypto_aesctr_stream_append)
      from less.hyps [OF smaller i1(3) b32 room, where AES = AES1 and hctx = hctx1]
      obtain infile' AES' where err: "in_error infile' = in_error infile1"
        and rec: "dec_loop P (drop m (buf @ got)) infile1 outfile1 AES1 hctx1
          = (True, drop n rest, infile',
             outfile1\<lparr>out_data := out_data outfile1
                       @ fst (crypto_aesctr_stream P AES1 (take n rest)),
                     out_room := out_room outfile1 - n\<rparr>,
             AES', HMAC_SHA256_Update hctx1 (take n rest))"
        unfolding rest_def [symmetric] n_def [symmetric] by blast
      have "dec_loop P buf infile outfile AES hctx
          = (True, drop (length all - 32) all, infile',
             outfile\<lparr>out_data := out_data outfile
                       @ fst (crypto_aesctr_stream P AES (take (length all - 32) all)),
                     out_room := out_room outfile - (length all - 32)\<rparr>,
             AES', HMAC_SHA256_Update hctx (take (length all - 32) all))"
        unfolding step rec tk dr whole
        by (simp add: hp HMAC_SHA256_Update_twice outfile1_def lall)
      moreover have "in_error infile' = in_error infile" using err i1(2) by simp
      ultimately show ?thesis unfolding all_def by blast
    qed
  qed
qed

lemma fread_item_enough:
  "n \<le> length (in_data f)
   \<Longrightarrow> fread_item n f = (True, take n (in_data f), f\<lparr>in_data := drop n (in_data f)\<rparr>)"
  by (simp add: fread_item_def)

lemma fread_item_short:
  "length (in_data f) < n
   \<Longrightarrow> fread_item n f
       = (False, in_data f, f\<lparr>in_data := [], in_error := in_error f \<or> in_fails f\<rparr>)"
  by (simp add: fread_item_def)

text \<open>What \<open>scryptdec_file\<close> does on a stream of at least 128 bytes with the magic and
  the version 0 that does not fail, once \<open>scryptdec_setup\<close> has returned 0 and the cipher
  is set up: what \<open>scryptdec_buf\<close> does on the same bytes.\<close>

lemma scryptdec_file_keyed:
  assumes len: "128 \<le> length (in_data infile)"
    and magic: "take 6 (in_data infile) = magic" and version: "in_data infile ! 6 = 0"
    and dsetup: "scryptdec_setup h P (take 96 (in_data infile)) passwd maxmem maxmemfrac maxtime
         = Inr (dk, calls)"
    and aes: "aes_key_host h" "aesctr_host h"
    and sound: "\<not> in_fails infile" "\<not> in_error infile"
    and room: "length (in_data infile) \<le> out_room outfile"
  shows "scryptdec_file h P infile outfile passwd maxmem maxmemfrac maxtime
         = \<lparr>status =
              (if take 32 (hmac_sha256 P (take 32 (drop 32 dk))
                    (take (length (in_data infile) - 32) (in_data infile)))
                  \<noteq> take 32 (drop (length (in_data infile) - 32) (in_data infile))
               then Some (Rc 7) else None),
            out = out_data outfile
                  @ fst (crypto_aesctr_stream P (crypto_aesctr_init (take 32 dk) 0)
                      (take (length (in_data infile) - 128) (drop 96 (in_data infile)))),
            dk_left =
              (if take 32 (hmac_sha256 P (take 32 (drop 32 dk))
                    (take (length (in_data infile) - 32) (in_data infile)))
                  \<noteq> take 32 (drop (length (in_data infile) - 32) (in_data infile))
               then Some dk else Some (replicate 64 0)),
            outlen = None,
            derivations = calls\<rparr>"
proof -
  define c where "c = in_data infile"
  define infile1 where "infile1 = infile\<lparr>in_data := drop 7 c\<rparr>"
  define infile2 where "infile2 = infile1\<lparr>in_data := drop 96 c\<rparr>"
  define header where "header = take 96 c"
  define payload where "payload = take (length c - 128) (drop 96 c)"
  define AES where "AES = crypto_aesctr_init (take 32 dk) 0"
  define hctx where
    "hctx = HMAC_SHA256_Update (HMAC_SHA256_Init (take 32 (drop 32 dk))) header"
  have lc: "128 \<le> length c" using len by (simp add: c_def)
  have r1: "fread_item 7 infile = (True, take 7 c, infile1)"
    using lc by (simp add: fread_item_enough c_def infile1_def)
  have r2: "fread_item 89 infile1 = (True, take 89 (drop 7 c), infile2)"
    using lc by (simp add: fread_item_enough infile1_def infile2_def)
  have h7: "take 6 (take 7 c) = magic" "take 7 c ! 6 = 0"
    using magic version lc by (simp_all add: c_def)
  have hd: "take 7 c @ take 89 (drop 7 c) = header"
    unfolding header_def using take_add [of 7 89 c] by simp
  have lh: "length header = 96" using lc by (simp add: header_def)
  have i2: "in_data infile2 = drop 96 c" "\<not> in_fails infile2" "in_error infile2 = False"
    using sound by (simp_all add: infile2_def infile1_def)
  have room2: "length ([] :: bytes) + length (in_data infile2) \<le> out_room outfile"
    using room by (simp add: i2 c_def)
  have n: "length ([] @ in_data infile2) - 32 = length c - 128"
    using lc by (simp add: i2)
  from dec_loop_all [OF i2(2) _ room2, where P = P and AES = AES and hctx = hctx]
  obtain infile' AES' where err: "in_error infile' = in_error infile2"
    and loop: "dec_loop P [] infile2 outfile AES hctx
      = (True, drop (length c - 128) (drop 96 c), infile',
         outfile\<lparr>out_data := out_data outfile @ fst (crypto_aesctr_stream P AES payload),
                 out_room := out_room outfile - (length c - 128)\<rparr>,
         AES', HMAC_SHA256_Update hctx payload)"
    unfolding n payload_def by (simp add: i2) blast
  have tail: "drop (length c - 128) (drop 96 c) = drop (length c - 32) c"
    using lc by simp
  have ltail: "length (drop (length c - 32) c) = 32" using lc by simp
  have msg: "header @ payload = take (length c - 32) c"
  proof -
    have "take (length c - 32) c = take (96 + (length c - 128)) c" using lc by simp
    also have "\<dots> = take 96 c @ take (length c - 128) (drop 96 c)" by (rule take_add)
    finally show ?thesis by (simp add: header_def payload_def)
  qed
  have fin: "HMAC_SHA256_Final P (HMAC_SHA256_Update hctx payload)
      = hmac_sha256 P (take 32 (drop 32 dk)) (take (length c - 32) c)"
    by (simp add: hctx_def HMAC_SHA256_Final_def HMAC_SHA256_Update_def HMAC_SHA256_Init_def msg)
  have t96: "take 96 header = header" using lh by simp
  show ?thesis
    unfolding scryptdec_file_def c_def [symmetric]
    using dsetup aes err lc magic [folded c_def] version [folded c_def]
    by (simp add: r1 h7 r2 hd header_def [symmetric] Let_def t96 hctx_def [symmetric]
        AES_def [symmetric] loop ferror_def i2(3) tail ltail fin payload_def [symmetric] c_def [symmetric])
qed

text \<open>On a stream that does not fail, \<open>scryptdec_file\<close> writes what \<open>scryptdec_buf\<close>
  produces from the same bytes, however the reads split them.\<close>

lemma scryptdec_file_out:
  assumes sound: "\<not> in_fails infile" "\<not> in_error infile"
    and room: "length (in_data infile) \<le> out_room outfile"
    and obuf: "length (in_data infile) - 128 \<le> length outbuf"
  shows "out (scryptdec_file h P infile outfile passwd maxmem maxmemfrac maxtime)
         = out_data outfile
           @ produced (scryptdec_buf h P (in_data infile) outbuf passwd maxmem maxmemfrac maxtime)"
proof -
  define c where "c = in_data infile"
  define F where "F = scryptdec_file h P infile outfile passwd maxmem maxmemfrac maxtime"
  define B where "B = scryptdec_buf h P c outbuf passwd maxmem maxmemfrac maxtime"
  consider (tiny) "length c < 7"
    | (magic) "7 \<le> length c" "take 6 c \<noteq> magic"
    | (version) "7 \<le> length c" "take 6 c = magic" "c ! 6 \<noteq> 0"
    | (header) "7 \<le> length c" "take 6 c = magic" "c ! 6 = 0" "length c < 96"
    | (tail) "96 \<le> length c" "take 6 c = magic" "c ! 6 = 0" "length c < 128"
    | (whole) "128 \<le> length c" "take 6 c = magic" "c ! 6 = 0"
    by linarith
  then have "out F = out_data outfile @ produced B"
  proof cases
    case tiny
    then have "out F = out_data outfile"
      by (simp add: F_def scryptdec_file_def fread_item_short c_def [symmetric] Let_def)
    moreover have "produced B = []"
      using tiny by (simp add: B_def scryptdec_buf_def produced_def Let_def)
    ultimately show ?thesis by simp
  next
    case magic
    then have "out F = out_data outfile"
      by (simp add: F_def scryptdec_file_bad_magic c_def [symmetric])
    moreover have "produced B = []"
      using magic by (simp add: B_def scryptdec_buf_bad_magic produced_def)
    ultimately show ?thesis by simp
  next
    case version
    then have "out F = out_data outfile"
      by (simp add: F_def scryptdec_file_def fread_item_enough c_def [symmetric] Let_def)
    moreover have "produced B = []"
      using version by (simp add: B_def scryptdec_buf_def produced_def Let_def)
    ultimately show ?thesis by simp
  next
    case header
    then have "out F = out_data outfile"
      by (simp add: F_def scryptdec_file_def fread_item_enough fread_item_short
          c_def [symmetric] Let_def)
    moreover have "produced B = []"
      using header by (simp add: B_def scryptdec_buf_def produced_def Let_def)
    ultimately show ?thesis by simp
  next
    case tail
    define infile2 where "infile2 = infile\<lparr>in_data := drop 96 c\<rparr>"
    have r1: "fread_item 7 infile = (True, take 7 c, infile\<lparr>in_data := drop 7 c\<rparr>)"
      using tail(1) by (simp add: fread_item_enough c_def)
    have r2: "fread_item 89 (infile\<lparr>in_data := drop 7 c\<rparr>)
        = (True, take 89 (drop 7 c), infile2)"
      using tail(1) by (simp add: fread_item_enough infile2_def)
    have h7: "take 6 (take 7 c) = magic" "take 7 c ! 6 = 0"
      using tail by simp_all
    have i2: "in_data infile2 = drop 96 c" "\<not> in_fails infile2"
      using sound by (simp_all add: infile2_def)
    have room2: "length ([] :: bytes) + length (in_data infile2) \<le> out_room outfile"
      using room by (simp add: i2 c_def)
    have n: "length ([] @ in_data infile2) - 32 = 0"
      using tail(4) by (simp add: i2)
    have hd: "take 7 c @ take 89 (drop 7 c) = take 96 c"
      using take_add [of 7 89 c] by simp
    have "out F = out_data outfile"
    proof (cases "scryptdec_setup h P (take 96 c) passwd maxmem maxmemfrac maxtime")
      case (Inl e)
      obtain rc dkl calls where e: "e = (rc, dkl, calls)" by (cases e)
      show ?thesis
        unfolding F_def scryptdec_file_def
        by (simp add: r1 h7 r2 hd Let_def Inl e)
    next
      case (Inr d)
      obtain dk calls where d: "d = (dk, calls)" by (cases d)
      show ?thesis
      proof (cases "aes_key_host h \<and> aesctr_host h")
        case False
        then show ?thesis
          unfolding F_def scryptdec_file_def
          by (auto simp: r1 h7 r2 hd Let_def Inr d)
      next
        case True
        define AES where "AES = crypto_aesctr_init (take 32 dk) 0"
        define hctx where "hctx = HMAC_SHA256_Update
            (HMAC_SHA256_Init (take 32 (drop 32 dk))) (take 96 c)"
        from dec_loop_all [OF i2(2) _ room2, where P = P and AES = AES and hctx = hctx]
        obtain buf' infile' AES' hctx' where
          loop: "dec_loop P [] infile2 outfile AES hctx
            = (True, buf', infile', outfile, AES', hctx')"
          unfolding n by auto
        show ?thesis
          unfolding F_def scryptdec_file_def
          using True tail(2,3)
          by (simp add: r1 h7 r2 hd Let_def Inr d AES_def [symmetric] hctx_def [symmetric] loop)
      qed
    qed
    moreover have "produced B = []"
      using tail by (simp add: B_def scryptdec_buf_def produced_def Let_def)
    ultimately show ?thesis by simp
  next
    case whole
    show ?thesis
    proof (cases "scryptdec_setup h P (take 96 c) passwd maxmem maxmemfrac maxtime")
      case (Inl e)
      obtain rc dkl calls where e: "e = (rc, dkl, calls)" by (cases e)
      have r1: "fread_item 7 infile = (True, take 7 c, infile\<lparr>in_data := drop 7 c\<rparr>)"
        using whole(1) by (simp add: fread_item_enough c_def)
      have r2: "fread_item 89 (infile\<lparr>in_data := drop 7 c\<rparr>)
          = (True, take 89 (drop 7 c), infile\<lparr>in_data := drop 96 c\<rparr>)"
        using whole(1) by (simp add: fread_item_enough)
      have h7: "take 6 (take 7 c) = magic" "take 7 c ! 6 = 0"
        using whole by simp_all
      have hd: "take 7 c @ take 89 (drop 7 c) = take 96 c"
        using take_add [of 7 89 c] by simp
      have "out F = out_data outfile"
        unfolding F_def scryptdec_file_def
        by (simp add: r1 h7 r2 hd Let_def Inl e)
      moreover have "produced B = []"
        using whole by (simp add: B_def scryptdec_buf_def produced_def Let_def Inl e)
      ultimately show ?thesis by simp
    next
      case (Inr d)
      obtain dk calls where d: "d = (dk, calls)" by (cases d)
      show ?thesis
      proof (cases "aes_key_host h \<and> aesctr_host h")
        case True
        note ds = Inr [unfolded d c_def]
        have kf: "aes_key_host h" "aesctr_host h" using True by simp_all
        note eqf = scryptdec_file_keyed [OF whole [unfolded c_def] ds kf sound room]
        have f: "out F = out_data outfile
            @ fst (crypto_aesctr_stream P (crypto_aesctr_init (take 32 dk) 0)
                (take (length c - 128) (drop 96 c)))"
          unfolding F_def c_def eqf by simp
        have kb: "aes_key_host h" "aesctr_host h" using True by simp_all
        note eqb = scryptdec_buf_keyed [OF whole [unfolded c_def] ds kb obuf]
        have b: "produced B = fst (crypto_aesctr_stream P (crypto_aesctr_init (take 32 dk) 0)
                (take (length c - 128) (drop 96 c)))"
          unfolding B_def c_def produced_def eqb using whole(1) by (simp add: c_def)
        show ?thesis by (simp add: f b)
      next
        case False
        have r1: "fread_item 7 infile = (True, take 7 c, infile\<lparr>in_data := drop 7 c\<rparr>)"
          using whole(1) by (simp add: fread_item_enough c_def)
        have r2: "fread_item 89 (infile\<lparr>in_data := drop 7 c\<rparr>)
            = (True, take 89 (drop 7 c), infile\<lparr>in_data := drop 96 c\<rparr>)"
          using whole(1) by (simp add: fread_item_enough)
        have h7: "take 6 (take 7 c) = magic" "take 7 c ! 6 = 0"
          using whole by simp_all
        have hd: "take 7 c @ take 89 (drop 7 c) = take 96 c"
          using take_add [of 7 89 c] by simp
        have "out F = out_data outfile"
          unfolding F_def scryptdec_file_def
          using False by (auto simp: r1 h7 r2 hd Let_def Inr d)
        moreover have "produced B = []"
          using whole False by (auto simp: B_def scryptdec_buf_def produced_def Let_def Inr d)
        ultimately show ?thesis by simp
      qed
    qed
  qed
  then show ?thesis by (simp add: F_def B_def c_def)
qed

text \<open>On at least 128 bytes, the two decrypting entry points return the same status, leave
  the same \<open>dk\<close> and make the same derivations.\<close>

lemma scryptdec_file_status:
  assumes len: "128 \<le> length (in_data infile)"
    and sound: "\<not> in_fails infile" "\<not> in_error infile"
    and room: "length (in_data infile) \<le> out_room outfile"
    and obuf: "length (in_data infile) - 128 \<le> length outbuf"
  shows "status (scryptdec_file h P infile outfile passwd maxmem maxmemfrac maxtime)
         = status (scryptdec_buf h P (in_data infile) outbuf passwd maxmem maxmemfrac maxtime)
       \<and> dk_left (scryptdec_file h P infile outfile passwd maxmem maxmemfrac maxtime)
         = dk_left (scryptdec_buf h P (in_data infile) outbuf passwd maxmem maxmemfrac maxtime)
       \<and> derivations (scryptdec_file h P infile outfile passwd maxmem maxmemfrac maxtime)
         = derivations (scryptdec_buf h P (in_data infile) outbuf passwd maxmem maxmemfrac maxtime)"
proof -
  define c where "c = in_data infile"
  have lc: "128 \<le> length c" using len by (simp add: c_def)
  have r1: "fread_item 7 infile = (True, take 7 c, infile\<lparr>in_data := drop 7 c\<rparr>)"
    using lc by (simp add: fread_item_enough c_def)
  have r2: "fread_item 89 (infile\<lparr>in_data := drop 7 c\<rparr>)
      = (True, take 89 (drop 7 c), infile\<lparr>in_data := drop 96 c\<rparr>)"
    using lc by (simp add: fread_item_enough)
  have h7: "take 6 (take 7 c) = take 6 c" "take 7 c ! 6 = c ! 6"
    by simp_all
  have hd: "take 7 c @ take 89 (drop 7 c) = take 96 c"
    using take_add [of 7 89 c] by simp
  show ?thesis
  proof (cases "take 6 c = magic \<and> c ! 6 = 0")
    case False
    then show ?thesis
      unfolding scryptdec_file_def scryptdec_buf_def c_def [symmetric]
      using lc by (auto simp: r1 h7 Let_def)
  next
    case True
    show ?thesis
    proof (cases "scryptdec_setup h P (take 96 c) passwd maxmem maxmemfrac maxtime")
      case (Inl e)
      obtain rc dkl calls where e: "e = (rc, dkl, calls)" by (cases e)
      show ?thesis
        unfolding scryptdec_file_def scryptdec_buf_def c_def [symmetric]
        using lc True by (simp add: r1 h7 r2 hd Let_def Inl e)
    next
      case (Inr d)
      obtain dk calls where d: "d = (dk, calls)" by (cases d)
      show ?thesis
      proof (cases "aes_key_host h \<and> aesctr_host h")
        case False
        then show ?thesis
          unfolding scryptdec_file_def scryptdec_buf_def c_def [symmetric]
          using lc True by (auto simp: r1 h7 r2 hd Let_def Inr d)
      next
        case k: True
        have m: "take 6 (in_data infile) = magic" "in_data infile ! 6 = 0"
          using True by (simp_all add: c_def)
        have kk: "aes_key_host h" "aesctr_host h" using k by simp_all
        note ds = Inr [unfolded d c_def]
        note eqf = scryptdec_file_keyed [OF len m ds kk sound room]
        note eqb = scryptdec_buf_keyed [OF len m ds kk obuf]
        show ?thesis unfolding eqf eqb by simp
      qed
    qed
  qed
qed

text \<open>When \<open>scryptenc_buf\<close> returns 0 on the data of a stream that does not fail, and the
  output has room, \<open>scryptenc_file\<close> returns 0 and writes the same bytes, however the
  reads split the data.\<close>

lemma scryptenc_file_eq_buf:
  assumes ok: "prims_ok P"
    and salt: "entropy_host h = Some salt" "length salt = 32"
    and sound: "\<not> in_fails infile" "\<not> in_error infile"
    and room: "length (in_data infile) + 128 \<le> out_room outfile"
    and obuf: "length outbuf = length (in_data infile) + 128"
    and enc: "status (scryptenc_buf h P (in_data infile) outbuf passwd maxmem maxmemfrac maxtime)
              = None"
  shows "scryptenc_file h P infile outfile passwd maxmem maxmemfrac maxtime
         = \<lparr>status = None,
            out = out_data outfile
                  @ out (scryptenc_buf h P (in_data infile) outbuf passwd maxmem maxmemfrac maxtime),
            dk_left = dk_left
              (scryptenc_buf h P (in_data infile) outbuf passwd maxmem maxmemfrac maxtime)\<rparr>"
proof -
  from enc obtain header dk where
    esetup: "scryptenc_setup h P passwd maxmem maxmemfrac maxtime = Inr (header, dk)"
    and aes: "aes_key_host h" "aesctr_host h"
    by (rule scryptenc_buf_status_None)
  from esetup ok obtain logN r p salt' where
    salt': "entropy_host h = Some salt'"
    and hdr: "length salt' = 32 \<longrightarrow> header = header_of P logN r p salt' dk"
    using scryptenc_setup_Inr by blast
  from salt salt' have "salt' = salt" by simp
  with hdr salt(2) have "header = header_of P logN r p salt dk" by simp
  then have lh: "length header = 96"
    using header_of_fields(1) [OF ok salt(2)] by simp
  note eqf = scryptenc_file_done [OF esetup lh ok aes sound room]
  note eqb = scryptenc_buf_done [OF esetup lh ok aes obuf]
  show ?thesis unfolding eqf eqb by simp
qed

text \<open>On a stream that does not fail, with room in the output and in \<open>outbuf\<close>, the two
  encrypting entry points return the same status.\<close>

lemma scryptenc_file_status:
  assumes sound: "\<not> in_fails infile" "\<not> in_error infile"
    and room: "length (in_data infile) + 128 \<le> out_room outfile"
    and obuf: "length (in_data infile) + 128 \<le> length outbuf"
  shows "status (scryptenc_file h P infile outfile passwd maxmem maxmemfrac maxtime)
         = status (scryptenc_buf h P (in_data infile) outbuf passwd maxmem maxmemfrac maxtime)"
proof (cases "scryptenc_setup h P passwd maxmem maxmemfrac maxtime")
  case (Inl rc)
  then show ?thesis by (simp add: scryptenc_file_def scryptenc_buf_def)
next
  case (Inr hd)
  obtain header dk where hd: "hd = (header, dk)" by (cases hd)
  define h96 where "h96 = take 96 header"
  have l96: "length h96 \<le> 96" by (simp add: h96_def)
  define outfile1 where "outfile1 = outfile\<lparr>out_data := out_data outfile @ h96,
      out_room := out_room outfile - length h96\<rparr>"
  have w1: "fwrite_item h96 outfile = (1, outfile1)"
    using l96 room by (simp add: fwrite_item_def fwrite_bytes_def Let_def outfile1_def)
  show ?thesis
  proof (cases "aes_key_host h \<and> aesctr_host h")
    case False
    then show ?thesis
      unfolding scryptenc_file_def scryptenc_buf_def
      using obuf by (auto simp: Inr hd Let_def h96_def [symmetric] w1)
  next
    case True
    define hctx1 where
      "hctx1 = HMAC_SHA256_Update (HMAC_SHA256_Init (take 32 (drop 32 dk))) h96"
    define AES where "AES = crypto_aesctr_init (take 32 dk) 0"
    have room1: "length (in_data infile) \<le> out_room outfile1"
      using room l96 by (simp add: outfile1_def)
    define outfile' where "outfile' = outfile1\<lparr>out_data := out_data outfile1
          @ fst (crypto_aesctr_stream P AES (in_data infile)),
        out_room := out_room outfile1 - length (in_data infile)\<rparr>"
    define hctx' where
      "hctx' = HMAC_SHA256_Update hctx1 (fst (crypto_aesctr_stream P AES (in_data infile)))"
    from enc_loop_all [OF sound(1) room1, of P AES hctx1]
    obtain infile' where err: "in_error infile' = in_error infile"
      and loop: "enc_loop P infile outfile1 AES hctx1
        = (True, infile', outfile', snd (crypto_aesctr_stream P AES (in_data infile)), hctx')"
      unfolding outfile'_def hctx'_def by blast
    define tag where "tag = take 32 (HMAC_SHA256_Final P hctx')"
    have l32: "length tag \<le> 32" by (simp add: tag_def)
    have "32 \<le> out_room outfile'"
      using room l96 by (simp add: outfile'_def outfile1_def)
    with l32 have w2: "fst (fwrite_item tag outfile') = 1"
      by (simp add: fwrite_item_def fwrite_bytes_def Let_def)
    have "status (scryptenc_file h P infile outfile passwd maxmem maxmemfrac maxtime) = None"
      unfolding scryptenc_file_def
      using True sound(2) err w2
      by (simp add: Inr hd Let_def h96_def [symmetric] w1 hctx1_def [symmetric]
          AES_def [symmetric] loop ferror_def tag_def [symmetric] split_beta)
    moreover have "status (scryptenc_buf h P (in_data infile) outbuf passwd maxmem maxmemfrac
        maxtime) = None"
      unfolding scryptenc_buf_def
      using True obuf by (simp add: Inr hd Let_def split_beta)
    ultimately show ?thesis by simp
  qed
qed

section \<open>Claims on the stream entry points\<close>

text \<open>
  C8. On an input stream that does not fail and an output stream with room, for every
  way the reads split the input (every \<open>in_short\<close>), every password, host and limits:
  \<open>scryptenc_file\<close> returns the status that \<open>scryptenc_buf\<close> returns on the data of the
  stream; when that status is 0, \<open>scryptenc_file\<close> has written exactly the
  \<open>inbuflen + 128\<close> bytes that \<open>scryptenc_buf\<close> wrote (header, ciphertext, tag), both
  finding the same host, that is the same salt and parameters; and \<open>scryptdec_file\<close> writes
  exactly the plaintext that \<open>scryptdec_buf\<close> produces from the same bytes, with the same
  status when there are at least 128 bytes.
\<close>

theorem stream_variants_agree_with_buffer_variants:
  assumes "prims_ok P" and "\<not> in_fails infile" and "\<not> in_error infile"
    and "length (in_data infile) + 128 \<le> out_room outfile"
  shows "(length outbuf = length (in_data infile) + 128 \<longrightarrow>
          status (scryptenc_file h P infile outfile passwd maxmem maxmemfrac maxtime)
          = status (scryptenc_buf h P (in_data infile) outbuf passwd maxmem maxmemfrac maxtime))
       \<and> (entropy_host h = Some salt \<longrightarrow> length salt = 32 \<longrightarrow>
          length outbuf = length (in_data infile) + 128 \<longrightarrow>
          status (scryptenc_buf h P (in_data infile) outbuf passwd maxmem maxmemfrac maxtime)
            = None \<longrightarrow>
          scryptenc_file h P infile outfile passwd maxmem maxmemfrac maxtime
          = \<lparr>status = None,
             out = out_data outfile
               @ out (scryptenc_buf h P (in_data infile) outbuf passwd maxmem maxmemfrac maxtime),
             dk_left = dk_left
               (scryptenc_buf h P (in_data infile) outbuf passwd maxmem maxmemfrac maxtime)\<rparr>)
       \<and> (length (in_data infile) - 128 \<le> length outbuf' \<longrightarrow>
          out (scryptdec_file h P infile outfile passwd maxmem maxmemfrac maxtime)
          = out_data outfile
            @ produced (scryptdec_buf h P (in_data infile) outbuf' passwd maxmem maxmemfrac maxtime)
          \<and> (128 \<le> length (in_data infile) \<longrightarrow>
             status (scryptdec_file h P infile outfile passwd maxmem maxmemfrac maxtime)
             = status (scryptdec_buf h P (in_data infile) outbuf' passwd maxmem maxmemfrac
                 maxtime)))"
proof (intro conjI impI)
  assume "length outbuf = length (in_data infile) + 128"
  then have "length (in_data infile) + 128 \<le> length outbuf" by simp
  from scryptenc_file_status [OF assms(2,3,4) this]
  show "status (scryptenc_file h P infile outfile passwd maxmem maxmemfrac maxtime)
      = status (scryptenc_buf h P (in_data infile) outbuf passwd maxmem maxmemfrac maxtime)" .
next
  assume "entropy_host h = Some salt" and "length salt = 32"
    and "length outbuf = length (in_data infile) + 128"
    and "status (scryptenc_buf h P (in_data infile) outbuf passwd maxmem maxmemfrac maxtime)
         = None"
  with assms show "scryptenc_file h P infile outfile passwd maxmem maxmemfrac maxtime
      = \<lparr>status = None,
         out = out_data outfile
           @ out (scryptenc_buf h P (in_data infile) outbuf passwd maxmem maxmemfrac maxtime),
         dk_left = dk_left
           (scryptenc_buf h P (in_data infile) outbuf passwd maxmem maxmemfrac maxtime)\<rparr>"
    by (intro scryptenc_file_eq_buf)
next
  have room: "length (in_data infile) \<le> out_room outfile" using assms(4) by simp
  assume obuf: "length (in_data infile) - 128 \<le> length outbuf'"
  show "out (scryptdec_file h P infile outfile passwd maxmem maxmemfrac maxtime)
      = out_data outfile
        @ produced (scryptdec_buf h P (in_data infile) outbuf' passwd maxmem maxmemfrac maxtime)"
    by (rule scryptdec_file_out [OF assms(2,3) room obuf])
  assume "128 \<le> length (in_data infile)"
  from scryptdec_file_status [OF this assms(2,3) room obuf]
  show "status (scryptdec_file h P infile outfile passwd maxmem maxmemfrac maxtime)
      = status (scryptdec_buf h P (in_data infile) outbuf' passwd maxmem maxmemfrac maxtime)"
    by simp
qed

theorem stream_variants_agree_with_buffer_variants_witness:
  "scryptenc_buf example_host toy_prims [10, 20, 30] (replicate 131 0) [1, 2, 3] 0 (1 / 2) 300
     = \<lparr>status = None, out = example_container, dk_left = Some (replicate 64 0)\<rparr>
   \<and> scryptenc_file example_host toy_prims
       \<lparr>in_data = [10, 20, 30], in_short = [0, 1], in_fails = False, in_error = False\<rparr>
       \<lparr>out_data = [], out_room = 131\<rparr> [1, 2, 3] 0 (1 / 2) 300
     = \<lparr>status = None, out = example_container, dk_left = Some (replicate 64 0)\<rparr>
   \<and> status (scryptenc_buf (example_host\<lparr>aes_key_host := False\<rparr>) toy_prims [10, 20, 30]
       (replicate 131 0) [1, 2, 3] 0 (1 / 2) 300) = Some (Rc 5)
   \<and> status (scryptenc_file (example_host\<lparr>aes_key_host := False\<rparr>) toy_prims
       \<lparr>in_data = [10, 20, 30], in_short = [0, 1], in_fails = False, in_error = False\<rparr>
       \<lparr>out_data = [], out_room = 131\<rparr> [1, 2, 3] 0 (1 / 2) 300) = Some (Rc 5)
   \<and> produced (scryptdec_buf example_host toy_prims example_container (replicate 3 0)
       [1, 2, 3] 0 (1 / 2) 300) = [10, 20, 30]
   \<and> out (scryptdec_file example_host toy_prims
       \<lparr>in_data = example_container, in_short = [9, 99, 0, 5], in_fails = False,
          in_error = False\<rparr>
       \<lparr>out_data = [], out_room = 259\<rparr> [1, 2, 3] 0 (1 / 2) 300) = [10, 20, 30]
   \<and> status (scryptdec_file example_host toy_prims
       \<lparr>in_data = example_container, in_short = [9, 99, 0, 5], in_fails = False,
          in_error = False\<rparr>
       \<lparr>out_data = [], out_room = 259\<rparr> [1, 2, 3] 0 (1 / 2) 300) = None"
  using stream_variants_agree_with_buffer_variants
    [of toy_prims
       "\<lparr>in_data = [10, 20, 30], in_short = [0, 1], in_fails = False, in_error = False\<rparr>"
       "\<lparr>out_data = [], out_room = 131\<rparr>" "replicate 131 0" example_host "[1, 2, 3]"
       0 "1 / 2" 300 "replicate 32 7"]
    stream_variants_agree_with_buffer_variants
    [of toy_prims
       "\<lparr>in_data = [10, 20, 30], in_short = [0, 1], in_fails = False, in_error = False\<rparr>"
       "\<lparr>out_data = [], out_room = 131\<rparr>" "replicate 131 0"
       "example_host\<lparr>aes_key_host := False\<rparr>" "[1, 2, 3]" 0 "1 / 2" 300]
    stream_variants_agree_with_buffer_variants
    [of toy_prims
       "\<lparr>in_data = example_container, in_short = [9, 99, 0, 5], in_fails = False,
          in_error = False\<rparr>"
       "\<lparr>out_data = [], out_room = 259\<rparr>" _ example_host "[1, 2, 3]" 0 "1 / 2" 300 _
       "replicate 3 0"]
  by (simp add: prims_ok_toy scryptenc_buf_example scryptenc_buf_nokey scryptdec_buf_example
      produced_def example_container_facts)

text \<open>
  C6. The entry points wipe \<open>dk\<close> only before \<open>return (0)\<close>. On the example container with
  the last byte of its tag changed, \<open>scryptdec_buf\<close> and \<open>scryptdec_file\<close> return 7 at the
  comparison of the tag and leave the 64 derived bytes in \<open>dk\<close>; on a host where
  \<open>crypto_aes_key_expand\<close> fails, \<open>scryptenc_buf\<close> returns 5 and leaves them as well. On
  the untouched container \<open>scryptdec_buf\<close> returns 0 and leaves zeros.
\<close>

theorem derived_key_left_on_error_returns:
  "scryptdec_buf example_host toy_prims tampered_container (replicate 3 0) [1, 2, 3] 0 (1 / 2) 300
     = \<lparr>status = Some (Rc 7), out = [10, 20, 30], dk_left = Some (replicate 64 177),
        outlen = Some 3, derivations = [([1, 2, 3], replicate 32 7, 1024, 8, 9155, 64)]\<rparr>
   \<and> status (scryptdec_file example_host toy_prims
         \<lparr>in_data = tampered_container, in_short = [], in_fails = False, in_error = False\<rparr>
         \<lparr>out_data = [], out_room = 131\<rparr> [1, 2, 3] 0 (1 / 2) 300) = Some (Rc 7)
   \<and> dk_left (scryptdec_file example_host toy_prims
         \<lparr>in_data = tampered_container, in_short = [], in_fails = False, in_error = False\<rparr>
         \<lparr>out_data = [], out_room = 131\<rparr> [1, 2, 3] 0 (1 / 2) 300)
       = Some (replicate 64 177)
   \<and> scryptenc_buf (example_host\<lparr>aes_key_host := False\<rparr>) toy_prims [10, 20, 30]
         (replicate 131 0) [1, 2, 3] 0 (1 / 2) 300
     = \<lparr>status = Some (Rc 5), out = example_header @ replicate 35 0,
        dk_left = Some (replicate 64 177)\<rparr>
   \<and> dk_left (scryptdec_buf example_host toy_prims example_container (replicate 3 0) [1, 2, 3]
         0 (1 / 2) 300) = Some (replicate 64 0)"
proof -
  have f: "status (scryptdec_file example_host toy_prims
         \<lparr>in_data = tampered_container, in_short = [], in_fails = False, in_error = False\<rparr>
         \<lparr>out_data = [], out_room = 131\<rparr> [1, 2, 3] 0 (1 / 2) 300) = Some (Rc 7)
      \<and> dk_left (scryptdec_file example_host toy_prims
         \<lparr>in_data = tampered_container, in_short = [], in_fails = False, in_error = False\<rparr>
         \<lparr>out_data = [], out_room = 131\<rparr> [1, 2, 3] 0 (1 / 2) 300)
       = Some (replicate 64 177)"
    using scryptdec_file_status
      [of "\<lparr>in_data = tampered_container, in_short = [], in_fails = False, in_error = False\<rparr>"
         "\<lparr>out_data = [], out_room = 131\<rparr>" "replicate 3 0" example_host toy_prims
         "[1, 2, 3]" 0 "1 / 2" 300]
    by (simp add: tampered_container_facts scryptdec_buf_tampered)
  show ?thesis
    using f by (simp add: scryptdec_buf_tampered scryptdec_buf_example scryptenc_buf_nokey)
qed

end
